theory Spec2Isabelle
  imports Main "HOL-Library.Finite_Map" "HOL-Library.Char_ord" "HOL-Library.List_Lexorder"
begin

section \<open>Strings and numbers (Go's strings and strconv packages)\<close>

text \<open>
  A Go string is a sequence of bytes, and \<open>len\<close> counts bytes: it is a \<open>string\<close> here.
  \<open>s[lo:hi]\<close> is \<open>slice s lo hi\<close>; Go panics when the bounds are out of range, and every
  use below is guarded by a length check that keeps them in range.
\<close>

definition slice :: "string \<Rightarrow> nat \<Rightarrow> nat \<Rightarrow> string" where
  "slice s lo hi = take (hi - lo) (drop lo s)"

text \<open>
  \<open>strings.Split(s, sep)\<close> for a separator of one byte: the text before the first
  separator, then the split of the text after it.
\<close>

function Split :: "string \<Rightarrow> char \<Rightarrow> string list" where
  "Split s sep =
     (case dropWhile (\<lambda>c. c \<noteq> sep) s of
        [] \<Rightarrow> [s]
      | _ # rest \<Rightarrow> takeWhile (\<lambda>c. c \<noteq> sep) s # Split rest sep)"
  by pat_completeness auto
termination
proof (relation "measure (\<lambda>(s, sep). length s)")
  show "wf (measure (\<lambda>(s, sep). length s))" by simp
next
  fix s :: string and sep x rest
  assume "dropWhile (\<lambda>c. c \<noteq> sep) s = x # rest"
  then have "length (dropWhile (\<lambda>c. c \<noteq> sep) s) = Suc (length rest)" by simp
  moreover have "length (dropWhile (\<lambda>c. c \<noteq> sep) s) \<le> length s"
    by (rule length_dropWhile_le)
  ultimately show "((rest, sep), (s, sep)) \<in> measure (\<lambda>(s, sep). length s)" by simp
qed

declare Split.simps [simp del]

datatype num_error = ErrSyntax | ErrRange

definition isDigit :: "char \<Rightarrow> bool" where
  "isDigit c = (48 \<le> (of_char c :: nat) \<and> (of_char c :: nat) \<le> 57)"

definition digitVal :: "char \<Rightarrow> int" where
  "digitVal c = int (of_char c) - 48"

text \<open>The digit loop of \<open>strconv.Atoi\<close>: \<open>n = n*10 + int(ch - '0')\<close>, a syntax error at the first byte that is no digit.\<close>

fun digitsVal :: "int \<Rightarrow> string \<Rightarrow> int option" where
  "digitsVal n [] = Some n"
| "digitsVal n (c # cs) = (if isDigit c then digitsVal (n * 10 + digitVal c) cs else None)"

text \<open>
  \<open>strconv.Atoi\<close>: an optional sign and at least one decimal digit. On a syntax error the
  value returned is 0; a value outside the 64-bit range is clamped and reported as a
  range error.
\<close>

definition Atoi :: "string \<Rightarrow> int \<times> num_error option" where
  "Atoi s =
     (case s of
        [] \<Rightarrow> (0, Some ErrSyntax)
      | c # cs \<Rightarrow>
          (let body = (if c = CHR ''-'' \<or> c = CHR ''+'' then cs else s) in
           if body = [] then (0, Some ErrSyntax)
           else case digitsVal 0 body of
                  None \<Rightarrow> (0, Some ErrSyntax)
                | Some n \<Rightarrow>
                    (let v = (if c = CHR ''-'' then - n else n) in
                     if v > 2 ^ 63 - 1 then (2 ^ 63 - 1, Some ErrRange)
                     else if v < - (2 ^ 63) then (- (2 ^ 63), Some ErrRange)
                     else (v, None))))"

section \<open>Instants (Go's time package)\<close>

text \<open>
  A \<open>time.Time\<close> with no nanoseconds is its Unix time in seconds. A \<open>*time.Location\<close> is its
  \<open>lookup\<close>: for a Unix time, the offset east of UTC in force and the interval
  \<open>[start, end)\<close> of Unix times in which that offset is in force. \<open>time.Local\<close>, which
  \<open>main\<close> sets from the configuration, is a parameter \<open>loc\<close> of every function that reads it.
\<close>

type_synonym Time = int
type_synonym Location = "int \<Rightarrow> int \<times> int \<times> int"

definition FixedZone :: "int \<Rightarrow> Location" where
  "FixedZone offset = (\<lambda>sec. (offset, - (2 ^ 63), 2 ^ 63 - 1))"

definition norm :: "int \<Rightarrow> int \<Rightarrow> int \<Rightarrow> int \<times> int" where
  "norm hi lo base =
     (let (hi1, lo1) = (if lo < 0
                        then (let n = (- lo - 1) div base + 1 in (hi - n, lo + n * base))
                        else (hi, lo));
          (hi2, lo2) = (if lo1 \<ge> base
                        then (let n = lo1 div base in (hi1 + n, lo1 - n * base))
                        else (hi1, lo1))
      in (hi2, lo2))"

definition isLeap :: "int \<Rightarrow> bool" where
  "isLeap year = (year mod 4 = 0 \<and> (year mod 100 \<noteq> 0 \<or> year mod 400 = 0))"

definition daysBefore :: "int list" where
  "daysBefore = [0, 31, 59, 90, 120, 151, 181, 212, 243, 273, 304, 334, 365]"

text \<open>Days from 1 January of year 1 to 1 January of \<open>year\<close>, in the proleptic Gregorian calendar.\<close>

definition daysSinceEpoch :: "int \<Rightarrow> int" where
  "daysSinceEpoch year =
     (let y = year - 1;
          n400 = y div 400; y1 = y - 400 * n400;
          n100 = y1 div 100; y2 = y1 - 100 * n100;
          n4 = y2 div 4; y3 = y2 - 4 * n4
      in 146097 * n400 + 36524 * n100 + 1461 * n4 + 365 * y3)"

text \<open>Seconds from 1 January of year 1 to the Unix epoch.\<close>

definition unixToInternal :: int where
  "unixToInternal = 62135596800"

text \<open>
  \<open>time.Date\<close>: month, second, minute and hour outside their ranges overflow into the
  next unit; the instant is first computed as if in UTC and then moved by the offset
  that \<open>loc\<close> gives for it (looked up a second time when the first guess falls outside
  the interval of its offset).
\<close>

definition Date :: "int \<Rightarrow> int \<Rightarrow> int \<Rightarrow> int \<Rightarrow> int \<Rightarrow> int \<Rightarrow> Location \<Rightarrow> Time" where
  "Date year month day hour minute sec loc =
     (let (year1, m) = norm year (month - 1) 12;
          month1 = m + 1;
          (min1, sec1) = norm minute sec 60;
          (hour1, min2) = norm hour min1 60;
          (day1, hour2) = norm day hour1 24;
          d = daysSinceEpoch year1 + daysBefore ! nat (month1 - 1)
              + (if isLeap year1 \<and> month1 \<ge> 3 then 1 else 0)
              + (day1 - 1);
          abs = d * 86400 + hour2 * 3600 + min2 * 60 + sec1;
          unix = abs - unixToInternal;
          (offset, start, end) = loc unix
      in if offset \<noteq> 0
         then (let utc = unix - offset;
                   offset1 = (if utc < start \<or> utc \<ge> end then fst (loc utc) else offset)
               in unix - offset1)
         else unix)"

text \<open>Seconds from 1 January of year 1, 00:00 local time, to the instant \<open>t\<close>.\<close>

definition absSec :: "Location \<Rightarrow> Time \<Rightarrow> int" where
  "absSec loc t = t + fst (loc t) + unixToInternal"

text \<open>
  The month and the day of the month of the day numbered \<open>day\<close> (from 0) of a year that
  is not leap: the month is first guessed as if every month had 31 days, a guess that
  is too low by one month at most.
\<close>

definition monthDay :: "int \<Rightarrow> int \<times> int" where
  "monthDay day =
     (let month = day div 31;
          end = daysBefore ! nat (month + 1);
          (month1, begin) = (if day \<ge> end then (month + 1, end)
                             else (month, daysBefore ! nat month))
      in (month1 + 1, day - begin + 1))"

text \<open>\<open>absDate\<close>: year, month and day of the day that is \<open>days\<close> days after 1 January of year 1.\<close>

definition absDate :: "int \<Rightarrow> int \<times> int \<times> int" where
  "absDate days =
     (let n400 = days div 146097; d1 = days - 146097 * n400;
          c = d1 div 36524; n100 = c - c div 4; d2 = d1 - 36524 * n100;
          n4 = d2 div 1461; d3 = d2 - 1461 * n4;
          q = d3 div 365; n1 = q - q div 4; yday = d3 - 365 * n1;
          year = 400 * n400 + 100 * n100 + 4 * n4 + n1 + 1
      in if isLeap year \<and> yday = 31 + 29 - 1 then (year, 2, 29)
         else (year, monthDay (if isLeap year \<and> yday > 31 + 29 - 1 then yday - 1 else yday)))"

text \<open>The decimal digits of a natural number, most significant first.\<close>

fun digits :: "nat \<Rightarrow> string" where
  "digits n = (if n < 10 then [char_of (48 + n)] else digits (n div 10) @ [char_of (48 + n mod 10)])"

declare digits.simps [simp del]

text \<open>\<open>appendInt\<close>: a minus sign for a negative number, then the digits padded with zeros to \<open>width\<close>.\<close>

definition appendInt :: "int \<Rightarrow> nat \<Rightarrow> string" where
  "appendInt x width =
     (let ds = digits (nat \<bar>x\<bar>)
      in (if x < 0 then ''-'' else '''') @ replicate (width - length ds) (CHR ''0'') @ ds)"

text \<open>\<open>t.Format("2006-01-02")\<close> and \<open>t.Format("15:04")\<close> for an instant \<open>t\<close> of location \<open>loc\<close>.\<close>

definition Format_date :: "Location \<Rightarrow> Time \<Rightarrow> string" where
  "Format_date loc t =
     (let (year, month, day) = absDate (absSec loc t div 86400)
      in appendInt year 4 @ ''-'' @ appendInt month 2 @ ''-'' @ appendInt day 2)"

definition Format_clock :: "Location \<Rightarrow> Time \<Rightarrow> string" where
  "Format_clock loc t =
     (let secs = absSec loc t mod 86400;
          hour = secs div 3600;
          minute = (secs mod 3600) div 60
      in appendInt hour 2 @ '':'' @ appendInt minute 2)"

section \<open>The timestamp parser\<close>

datatype time_error = InvalidTimeFormat | WrongLength

definition parseEPGTime :: "Location \<Rightarrow> string \<Rightarrow> time_error + Time" where
  "parseEPGTime loc timeStr =
     (let parts = Split timeStr (CHR '' '') in
      if length parts < 1 then Inl InvalidTimeFormat
      else (let baseTime = parts ! 0 in
            if length baseTime \<noteq> 14 then Inl WrongLength
            else (let year = fst (Atoi (slice baseTime 0 4));
                      month = fst (Atoi (slice baseTime 4 6));
                      day = fst (Atoi (slice baseTime 6 8));
                      hour = fst (Atoi (slice baseTime 8 10));
                      minute = fst (Atoi (slice baseTime 10 12));
                      second = fst (Atoi (slice baseTime 12 14))
                  in Inr (Date year month day hour minute second loc))))"

text \<open>The numeric portion of a timestamp, in the specification's words: the text before the first space.\<close>

definition numeric_portion :: "string \<Rightarrow> string" where
  "numeric_portion s = takeWhile (\<lambda>c. c \<noteq> CHR '' '') s"

section \<open>The guide document and the cache\<close>

text \<open>
  The structs of \<open>main.go\<close>. Of \<open>TV\<close> only the two lists are kept: its name and its four
  attributes are decoded and never read. The lock \<open>mu\<close> of \<open>EPGCache\<close> has no counterpart in
  a sequential model. The fields of \<open>ProgramItem\<close> carry the suffix \<open>_item\<close> to keep them apart
  from those of \<open>Programme\<close>. A Go map is a finite map; a map that is \<open>nil\<close> and an empty one
  are both \<open>fmempty\<close>, and a slice that is \<open>nil\<close> and an empty one are both \<open>[]\<close>: reading
  does not tell them apart.
\<close>

record DisplayName =
  Lang :: string
  Value :: string

record Channel =
  ID :: string
  DisplayName :: "DisplayName list"

record Programme =
  Start :: string
  Stop :: string
  Channel :: string
  Title :: string

record TV =
  Channels :: "Channel list"
  Programmes :: "Programme list"

record ProgramItem =
  Start_item :: string
  End_item :: string
  Title_item :: string

type_synonym DatePrograms = "(string, ProgramItem list) fmap"

record EPGCache =
  ChannelMap :: "(string, string) fmap"
  ProgramData :: "(string, DatePrograms) fmap"

text \<open>The value of a Go \<open>error\<close> is its message.\<close>

type_synonym go_error = string

text \<open>The global \<open>epgCache\<close> as the program starts: two empty maps.\<close>

definition epgCache_init :: EPGCache where
  "epgCache_init = \<lparr>ChannelMap = fmempty, ProgramData = fmempty\<rparr>"

section \<open>The index builder\<close>

text \<open>
  The inner loop of the first pass of \<open>buildEPGCache\<close>, over the display names of one
  channel: the first name tagged \<open>zh\<close> with a value that is not empty is stored, and
  \<open>break\<close> ends the loop.
\<close>

fun scanDisplayNames :: "string \<Rightarrow> DisplayName list \<Rightarrow> (string, string) fmap \<Rightarrow> (string, string) fmap" where
  "scanDisplayNames chID [] m = m"
| "scanDisplayNames chID (dn # dns) m =
     (if Lang dn = ''zh'' \<and> Value dn \<noteq> '''' then fmupd (Value dn) chID m
      else scanDisplayNames chID dns m)"

text \<open>
  The body of the second pass, for one programme. \<open>continue\<close> leaves the index as it
  is; the warning written to the log is not modelled. Reading a key that a Go map does
  not hold gives the zero value of the element type.
\<close>

definition addProgramme :: "Location \<Rightarrow> Programme \<Rightarrow> (string, DatePrograms) fmap \<Rightarrow> (string, DatePrograms) fmap" where
  "addProgramme loc prog pd =
     (case parseEPGTime loc (Start prog) of
        Inl err \<Rightarrow> pd
      | Inr startTime \<Rightarrow>
          (case parseEPGTime loc (Stop prog) of
             Inl err \<Rightarrow> pd
           | Inr stopTime \<Rightarrow>
               (let dateStr = Format_date loc startTime;
                    startStr = Format_clock loc startTime;
                    stopStr = Format_clock loc stopTime;
                    item = \<lparr>Start_item = startStr, End_item = stopStr, Title_item = Title prog\<rparr>;
                    pd1 = (case fmlookup pd (Channel prog) of
                             None \<Rightarrow> fmupd (Channel prog) fmempty pd
                           | Some _ \<Rightarrow> pd);
                    dates1 = (case fmlookup pd1 (Channel prog) of None \<Rightarrow> fmempty | Some dm \<Rightarrow> dm);
                    dates2 = (case fmlookup dates1 dateStr of
                                None \<Rightarrow> fmupd dateStr [] dates1
                              | Some _ \<Rightarrow> dates1);
                    items = (case fmlookup dates2 dateStr of None \<Rightarrow> [] | Some xs \<Rightarrow> xs)
                in fmupd (Channel prog) (fmupd dateStr (items @ [item]) dates2) pd1)))"

text \<open>
  \<open>buildEPGCache\<close>: both maps of the global cache are replaced by empty ones, then filled
  by the two passes. The error returned is always \<open>nil\<close>.
\<close>

definition buildEPGCache :: "Location \<Rightarrow> TV \<Rightarrow> EPGCache \<Rightarrow> go_error option \<times> EPGCache" where
  "buildEPGCache loc tv cache =
     (let c0 = cache\<lparr>ChannelMap := fmempty, ProgramData := fmempty\<rparr>;
          c1 = c0\<lparr>ChannelMap :=
                    fold (\<lambda>ch m. scanDisplayNames (ID ch) (DisplayName ch) m) (Channels tv) (ChannelMap c0)\<rparr>;
          c2 = c1\<lparr>ProgramData := fold (addProgramme loc) (Programmes tv) (ProgramData c1)\<rparr>
      in (None, c2))"

text \<open>
  What the specification says of the builder. The lookup name of a channel is the value
  of its first display name tagged \<open>zh\<close> that is not empty. The item derived from a
  programme whose two timestamps parse comes with the date of its bucket.
\<close>

definition zhName :: "Channel \<Rightarrow> string option" where
  "zhName ch = map_option Value (find (\<lambda>dn. Lang dn = ''zh'' \<and> Value dn \<noteq> '''') (DisplayName ch))"

definition derivedItem :: "Location \<Rightarrow> Programme \<Rightarrow> (string \<times> ProgramItem) option" where
  "derivedItem loc p =
     (case parseEPGTime loc (Start p) of
        Inl _ \<Rightarrow> None
      | Inr st \<Rightarrow>
          (case parseEPGTime loc (Stop p) of
             Inl _ \<Rightarrow> None
           | Inr sp \<Rightarrow>
               Some (Format_date loc st,
                     \<lparr>Start_item = Format_clock loc st, End_item = Format_clock loc sp,
                      Title_item = Title p\<rparr>)))"

text \<open>
  The items of the bucket \<open>[ch][d]\<close> in feed order: one for each programme of channel
  \<open>ch\<close> whose item is derived with date \<open>d\<close>.
\<close>

definition bucketItems :: "Location \<Rightarrow> Programme list \<Rightarrow> string \<Rightarrow> string \<Rightarrow> ProgramItem list" where
  "bucketItems loc ps ch d =
     List.map_filter
       (\<lambda>p. case derivedItem loc p of
               None \<Rightarrow> None
             | Some (d', item) \<Rightarrow> if Channel p = ch \<and> d' = d then Some item else None) ps"

text \<open>Reading the bucket \<open>[ch][d]\<close> of a programme index, \<open>None\<close> when either key is missing.\<close>

definition bucket :: "(string, DatePrograms) fmap \<Rightarrow> string \<Rightarrow> string \<Rightarrow> ProgramItem list option" where
  "bucket pd ch d = (case fmlookup pd ch of None \<Rightarrow> None | Some dm \<Rightarrow> fmlookup dm d)"

text \<open>A clock time written \<open>HH:MM\<close>: two digits, a colon, two digits.\<close>

definition isHHMM :: "string \<Rightarrow> bool" where
  "isHHMM s = (case s of
                 [h1, h2, c, m1, m2] \<Rightarrow> isDigit h1 \<and> isDigit h2 \<and> c = CHR '':'' \<and> isDigit m1 \<and> isDigit m2
               | _ \<Rightarrow> False)"

text \<open>The items of a bucket that may be missing: none when it is.\<close>

definition itemsOf :: "ProgramItem list option \<Rightarrow> ProgramItem list" where
  "itemsOf b = (case b of None \<Rightarrow> [] | Some xs \<Rightarrow> xs)"

text \<open>\<open>t.Year()\<close>: the year of the instant \<open>t\<close> in the zone \<open>loc\<close>.\<close>

definition Year :: "Location \<Rightarrow> Time \<Rightarrow> int" where
  "Year loc t = fst (absDate (absSec loc t div 86400))"

text \<open>A date written \<open>YYYY-MM-DD\<close>: four digits, a hyphen, two digits, a hyphen, two digits.\<close>

definition isYMD :: "string \<Rightarrow> bool" where
  "isYMD s = (length s = 10 \<and> list_all isDigit (take 4 s) \<and> s ! 4 = CHR ''-''
              \<and> list_all isDigit (take 2 (drop 5 s)) \<and> s ! 7 = CHR ''-''
              \<and> list_all isDigit (drop 8 s))"

section \<open>The query handler\<close>











section \<open>The snapshot (Go's encoding/json package)\<close>

text \<open>
  A JSON document is modelled as its tree of values; how a tree is written as bytes
  and read back is not. What is modelled is how \<open>json.Marshal\<close> turns the cache into a
  tree and how \<open>json.Unmarshal\<close> stores a tree into the cache: which fields are written
  under which key, the order of the keys, what is done with a value of the wrong kind,
  and what both do to a string that is not valid UTF-8.
\<close>

datatype json =
    JNull
  | JBool bool
  | JNumber string
  | JString string
  | JArray "json list"
  | JObject "(string \<times> json) list"

subsection \<open>Strings that are not valid UTF-8\<close>

definition contByte :: "char \<Rightarrow> bool" where
  "contByte c = (128 \<le> (of_char c :: nat) \<and> (of_char c :: nat) \<le> 191)"

definition second3 :: "nat \<Rightarrow> char \<Rightarrow> bool" where
  "second3 x c = ((if x = 224 then 160 else 128) \<le> (of_char c :: nat)
                  \<and> (of_char c :: nat) \<le> (if x = 237 then 159 else 191))"

definition second4 :: "nat \<Rightarrow> char \<Rightarrow> bool" where
  "second4 x c = ((if x = 240 then 144 else 128) \<le> (of_char c :: nat)
                  \<and> (of_char c :: nat) \<le> (if x = 244 then 143 else 191))"

text \<open>
  The number of bytes of the UTF-8 encoding that \<open>s\<close> starts with, as
  \<open>utf8.DecodeRuneInString\<close> finds it; \<open>None\<close> when \<open>s\<close> starts with no encoding (Go
  returns \<open>RuneError\<close> with size 1).
\<close>

definition runeSize :: "string \<Rightarrow> nat option" where
  "runeSize s =
     (case s of
        [] \<Rightarrow> None
      | b0 # r \<Rightarrow>
          (let x = (of_char b0 :: nat) in
           if x < 128 then Some 1
           else if 194 \<le> x \<and> x \<le> 223
             then (case r of b1 # _ \<Rightarrow> if contByte b1 then Some 2 else None | _ \<Rightarrow> None)
           else if 224 \<le> x \<and> x \<le> 239
             then (case r of
                     b1 # b2 # _ \<Rightarrow> if second3 x b1 \<and> contByte b2 then Some 3 else None
                   | _ \<Rightarrow> None)
           else if 240 \<le> x \<and> x \<le> 244
             then (case r of
                     b1 # b2 # b3 # _ \<Rightarrow>
                       if second4 x b1 \<and> contByte b2 \<and> contByte b3 then Some 4 else None
                   | _ \<Rightarrow> None)
           else None))"

text \<open>The encoding of U+FFFD, the replacement character.\<close>

definition replacementChar :: string where
  "replacementChar = [CHR 0xEF, CHR 0xBF, CHR 0xBD]"

text \<open>
  What the encoder writes for a string and what the decoder reads from one: every
  byte that starts no encoding becomes the replacement character.
\<close>

fun toValidUTF8 :: "string \<Rightarrow> string" where
  "toValidUTF8 [] = []"
| "toValidUTF8 (c # cs) =
     (case runeSize (c # cs) of
        None \<Rightarrow> replacementChar @ toValidUTF8 cs
      | Some n \<Rightarrow> take n (c # cs) @ toValidUTF8 (drop (n - 1) cs))"

text \<open>\<open>utf8.ValidString\<close>.\<close>

fun validUTF8 :: "string \<Rightarrow> bool" where
  "validUTF8 [] = True"
| "validUTF8 (c # cs) =
     (case runeSize (c # cs) of
        None \<Rightarrow> False
      | Some n \<Rightarrow> validUTF8 (drop (n - 1) cs))"

subsection \<open>Marshal\<close>

text \<open>
  A struct is written as an object with one member for each exported field, under
  the name of its \<open>json\<close> tag or else its own name, in the order of the fields; a map as
  an object with its keys in increasing order; a slice as an array.
\<close>

definition marshalItem :: "ProgramItem \<Rightarrow> json" where
  "marshalItem it =
     JObject [(''start'', JString (toValidUTF8 (Start_item it))),
              (''end'', JString (toValidUTF8 (End_item it))),
              (''title'', JString (toValidUTF8 (Title_item it)))]"

definition marshalStringMap :: "(string, string) fmap \<Rightarrow> json" where
  "marshalStringMap m =
     JObject (map (\<lambda>(k, v). (toValidUTF8 k, JString (toValidUTF8 v))) (sorted_list_of_fmap m))"

definition marshalDates :: "DatePrograms \<Rightarrow> json" where
  "marshalDates dm =
     JObject (map (\<lambda>(k, items). (toValidUTF8 k, JArray (map marshalItem items)))
                  (sorted_list_of_fmap dm))"

definition marshalProgramData :: "(string, DatePrograms) fmap \<Rightarrow> json" where
  "marshalProgramData pd =
     JObject (map (\<lambda>(k, dm). (toValidUTF8 k, marshalDates dm)) (sorted_list_of_fmap pd))"

definition Marshal :: "EPGCache \<Rightarrow> json" where
  "Marshal c =
     JObject [(''ChannelMap'', marshalStringMap (ChannelMap c)),
              (''ProgramData'', marshalProgramData (ProgramData c))]"

subsection \<open>Unmarshal\<close>

text \<open>
  Every decoder returns the value stored and the error it saved, if any: a value of
  the wrong kind saves an error and decoding goes on, and \<open>Unmarshal\<close> returns the first
  error saved. A key names a field when the two are equal up to the case of ASCII
  letters.
\<close>

definition firstError :: "go_error option \<Rightarrow> go_error option \<Rightarrow> go_error option" where
  "firstError e1 e2 = (case e1 of None \<Rightarrow> e2 | Some e \<Rightarrow> Some e)"

definition toUpperASCII :: "char \<Rightarrow> char" where
  "toUpperASCII c =
     (if 97 \<le> (of_char c :: nat) \<and> (of_char c :: nat) \<le> 122 then char_of ((of_char c :: nat) - 32)
      else c)"

definition equalFold :: "string \<Rightarrow> string \<Rightarrow> bool" where
  "equalFold a b = (map toUpperASCII a = map toUpperASCII b)"

text \<open>Into a string that holds \<open>old\<close>: \<open>null\<close> leaves it as it is.\<close>

definition decodeString :: "json \<Rightarrow> string \<Rightarrow> string \<times> go_error option" where
  "decodeString j old =
     (case j of
        JString s \<Rightarrow> (toValidUTF8 s, None)
      | JNull \<Rightarrow> (old, None)
      | _ \<Rightarrow> (old, Some ''json: cannot unmarshal into Go value of type string''))"

text \<open>One member of an object, into a \<open>ProgramItem\<close>; a key that names no field is skipped.\<close>

definition decodeItemField :: "string \<times> json \<Rightarrow> ProgramItem \<times> go_error option \<Rightarrow> ProgramItem \<times> go_error option" where
  "decodeItemField kv acc =
     (case (kv, acc) of
        ((k, v), (it, e)) \<Rightarrow>
          if equalFold k ''start''
            then (case decodeString v (Start_item it) of
                    (s, e') \<Rightarrow> (it\<lparr>Start_item := s\<rparr>, firstError e e'))
          else if equalFold k ''end''
            then (case decodeString v (End_item it) of
                    (s, e') \<Rightarrow> (it\<lparr>End_item := s\<rparr>, firstError e e'))
          else if equalFold k ''title''
            then (case decodeString v (Title_item it) of
                    (s, e') \<Rightarrow> (it\<lparr>Title_item := s\<rparr>, firstError e e'))
          else (it, e))"

definition zeroItem :: ProgramItem where
  "zeroItem = \<lparr>Start_item = '''', End_item = '''', Title_item = ''''\<rparr>"

text \<open>Into a new element of a slice of \<open>ProgramItem\<close>.\<close>

definition decodeItem :: "json \<Rightarrow> ProgramItem \<times> go_error option" where
  "decodeItem j =
     (case j of
        JObject kvs \<Rightarrow> fold decodeItemField kvs (zeroItem, None)
      | JNull \<Rightarrow> (zeroItem, None)
      | _ \<Rightarrow> (zeroItem, Some ''json: cannot unmarshal into Go value of type main.ProgramItem''))"

text \<open>Into a new element of a map from dates to slices.\<close>

definition decodeItems :: "json \<Rightarrow> ProgramItem list \<times> go_error option" where
  "decodeItems j =
     (case j of
        JArray xs \<Rightarrow>
          (map (\<lambda>x. fst (decodeItem x)) xs,
           fold (\<lambda>x e. firstError e (snd (decodeItem x))) xs None)
      | JNull \<Rightarrow> ([], None)
      | _ \<Rightarrow> ([], Some ''json: cannot unmarshal into Go value of type []main.ProgramItem''))"

text \<open>
  The members of an object, into a map that holds \<open>m\<close>: each key is set to a new
  element into which \<open>dec\<close> has decoded the value; the entries of \<open>m\<close> under other keys
  stay.
\<close>

definition decodeMembers ::
  "(json \<Rightarrow> 'v \<times> go_error option) \<Rightarrow> (string \<times> json) list \<Rightarrow> (string, 'v) fmap \<Rightarrow>
   (string, 'v) fmap \<times> go_error option" where
  "decodeMembers dec kvs m =
     fold (\<lambda>(k, v) (m', e). case dec v of (x, e') \<Rightarrow> (fmupd (toValidUTF8 k) x m', firstError e e'))
          kvs (m, None)"

text \<open>Into a new element of the map from channels to dates: the element starts as a \<open>nil\<close> map.\<close>

definition decodeDates :: "json \<Rightarrow> DatePrograms \<times> go_error option" where
  "decodeDates j =
     (case j of
        JObject kvs \<Rightarrow> decodeMembers decodeItems kvs fmempty
      | JNull \<Rightarrow> (fmempty, None)
      | _ \<Rightarrow> (fmempty, Some ''json: cannot unmarshal into Go value of type map[string][]main.ProgramItem''))"

text \<open>Into the two fields of the cache, which hold maps already: \<open>null\<close> makes the field \<open>nil\<close>.\<close>

definition decodeProgramData ::
  "json \<Rightarrow> (string, DatePrograms) fmap \<Rightarrow> (string, DatePrograms) fmap \<times> go_error option" where
  "decodeProgramData j old =
     (case j of
        JObject kvs \<Rightarrow> decodeMembers decodeDates kvs old
      | JNull \<Rightarrow> (fmempty, None)
      | _ \<Rightarrow> (old, Some ''json: cannot unmarshal into Go struct field EPGCache.ProgramData''))"

definition decodeStringMap ::
  "json \<Rightarrow> (string, string) fmap \<Rightarrow> (string, string) fmap \<times> go_error option" where
  "decodeStringMap j old =
     (case j of
        JObject kvs \<Rightarrow> decodeMembers (\<lambda>v. decodeString v '''') kvs old
      | JNull \<Rightarrow> (fmempty, None)
      | _ \<Rightarrow> (old, Some ''json: cannot unmarshal into Go struct field EPGCache.ChannelMap''))"

definition decodeCacheField :: "string \<times> json \<Rightarrow> EPGCache \<times> go_error option \<Rightarrow> EPGCache \<times> go_error option" where
  "decodeCacheField kv acc =
     (case (kv, acc) of
        ((k, v), (c, e)) \<Rightarrow>
          if equalFold k ''ChannelMap''
            then (case decodeStringMap v (ChannelMap c) of
                    (m, e') \<Rightarrow> (c\<lparr>ChannelMap := m\<rparr>, firstError e e'))
          else if equalFold k ''ProgramData''
            then (case decodeProgramData v (ProgramData c) of
                    (m, e') \<Rightarrow> (c\<lparr>ProgramData := m\<rparr>, firstError e e'))
          else (c, e))"

text \<open>\<open>json.Unmarshal(data, epgCache)\<close> for the document \<open>j\<close> and the cache \<open>c\<close>: the error and the cache after it.\<close>

definition Unmarshal :: "json \<Rightarrow> EPGCache \<Rightarrow> go_error option \<times> EPGCache" where
  "Unmarshal j c =
     (case j of
        JObject kvs \<Rightarrow> (case fold decodeCacheField kvs (c, None) of (c', e) \<Rightarrow> (e, c'))
      | JNull \<Rightarrow> (None, c)
      | _ \<Rightarrow> (Some ''json: cannot unmarshal into Go value of type main.EPGCache'', c))"

subsection \<open>The cache file\<close>

text \<open>
  The file named by \<open>config.Cache.CacheFile\<close> is absent, or holds bytes that are no JSON
  document, or holds a JSON document. The program and the file make the state that the
  functions below pass on. What the operating system answers is a parameter: whether
  \<open>os.WriteFile\<close> and \<open>os.ReadFile\<close> fail, and what a failed write leaves in the file.
\<close>

datatype file_content = NotJSON | JSONDoc json

record World =
  epgCache :: EPGCache
  cacheFile :: "file_content option"

record FileSystem =
  writeFile_error :: "go_error option"
  failed_write_leaves :: "file_content option"
  readFile_error :: "go_error option"

definition saveCache :: "FileSystem \<Rightarrow> World \<Rightarrow> go_error option \<times> World" where
  "saveCache fs w =
     (let data = Marshal (epgCache w) in
      case writeFile_error fs of
        Some err \<Rightarrow> (Some err, w\<lparr>cacheFile := failed_write_leaves fs\<rparr>)
      | None \<Rightarrow> (None, w\<lparr>cacheFile := Some (JSONDoc data)\<rparr>))"

definition loadCache :: "FileSystem \<Rightarrow> World \<Rightarrow> go_error option \<times> World" where
  "loadCache fs w =
     (case cacheFile w of
        None \<Rightarrow> (Some ''cache file does not exist'', w)
      | Some content \<Rightarrow>
          (case readFile_error fs of
             Some err \<Rightarrow> (Some err, w)
           | None \<Rightarrow>
               (case content of
                  NotJSON \<Rightarrow> (Some ''invalid character looking for beginning of value'', w)
                | JSONDoc j \<Rightarrow>
                    (case Unmarshal j (epgCache w) of (err, c) \<Rightarrow> (err, w\<lparr>epgCache := c\<rparr>)))))"

subsection \<open>Reachable caches\<close>

text \<open>
  The strings of a document that \<open>encoding/xml\<close> has decoded are valid UTF-8: the decoder
  rejects a document that holds any other byte sequence.
\<close>

definition utf8_TV :: "TV \<Rightarrow> bool" where
  "utf8_TV tv =
     (list_all (\<lambda>ch. validUTF8 (ID ch) \<and> list_all (\<lambda>dn. validUTF8 (Value dn)) (DisplayName ch))
               (Channels tv)
      \<and> list_all (\<lambda>p. validUTF8 (Channel p) \<and> validUTF8 (Title p)) (Programmes tv))"

text \<open>
  The caches that the program can hold: the empty one it starts with, one built from
  a decoded document, one into which a JSON document has been loaded.
\<close>

inductive reachable :: "EPGCache \<Rightarrow> bool" where
  reachable_init: "reachable epgCache_init"
| reachable_build: "utf8_TV tv \<Longrightarrow> reachable (snd (buildEPGCache loc tv c))"
| reachable_load: "reachable c \<Longrightarrow> reachable (snd (Unmarshal j c))"

text \<open>A cache all of whose strings are valid UTF-8.\<close>

definition utf8_item :: "ProgramItem \<Rightarrow> bool" where
  "utf8_item it = (validUTF8 (Start_item it) \<and> validUTF8 (End_item it) \<and> validUTF8 (Title_item it))"

definition utf8_map :: "('v \<Rightarrow> bool) \<Rightarrow> (string, 'v) fmap \<Rightarrow> bool" where
  "utf8_map P m = list_all (\<lambda>(k, v). validUTF8 k \<and> P v) (sorted_list_of_fmap m)"

definition utf8_cache :: "EPGCache \<Rightarrow> bool" where
  "utf8_cache c =
     (utf8_map validUTF8 (ChannelMap c) \<and> utf8_map (utf8_map (list_all utf8_item)) (ProgramData c))"

section \<open>The ingestion pipeline\<close>

text \<open>
  What the network, the file system and the decoders answer during one run is a
  parameter: for each call that can fail, its error or its result. The files of the
  download directory are not part of the state; the path of the extracted file, which
  \<open>extractTarGz\<close> computes from the name of the temporary file, is given with the answers.
\<close>

record Environment =
  http_Get :: "go_error + int"
  os_CreateTemp :: "go_error + string"
  io_Copy_download :: "go_error option"
  os_Open_gz :: "go_error option"
  gzip_NewReader :: "go_error option"
  targetPath :: string
  os_Create_xml :: "go_error option"
  io_Copy_extract :: "go_error option"
  os_Open_xml :: "go_error option"
  xml_Decode :: "go_error + TV"
  fileSystem :: FileSystem

text \<open>\<open>downloadFile\<close>: the request, the status code of the response, the temporary file, the copy of the body.\<close>

definition downloadFile :: "Environment \<Rightarrow> go_error + string" where
  "downloadFile env =
     (case http_Get env of
        Inl err \<Rightarrow> Inl err
      | Inr statusCode \<Rightarrow>
          if statusCode \<noteq> 200 then Inl ''HTTP request failed''
          else (case os_CreateTemp env of
                  Inl err \<Rightarrow> Inl err
                | Inr tmpFile \<Rightarrow>
                    (case io_Copy_download env of
                       Some err \<Rightarrow> Inl err
                     | None \<Rightarrow> Inr tmpFile)))"

definition extractTarGz :: "Environment \<Rightarrow> string \<Rightarrow> go_error + string" where
  "extractTarGz env gzPath =
     (case os_Open_gz env of
        Some err \<Rightarrow> Inl err
      | None \<Rightarrow>
          (case gzip_NewReader env of
             Some err \<Rightarrow> Inl err
           | None \<Rightarrow>
               (case os_Create_xml env of
                  Some err \<Rightarrow> Inl err
                | None \<Rightarrow>
                    (case io_Copy_extract env of
                       Some err \<Rightarrow> Inl err
                     | None \<Rightarrow> Inr (targetPath env)))))"

definition parseEPGXML :: "Environment \<Rightarrow> string \<Rightarrow> go_error + TV" where
  "parseEPGXML env xmlPath =
     (case os_Open_xml env of
        Some err \<Rightarrow> Inl err
      | None \<Rightarrow> xml_Decode env)"

text \<open>The error of a run: the error of a stage, wrapped with the name of the stage.\<close>

datatype run_error =
    DownloadFailed go_error
  | ExtractFailed go_error
  | ParseXMLFailed go_error
  | BuildCacheFailed go_error
  | SaveCacheFailed go_error

definition downloadAndParseEPG :: "Environment \<Rightarrow> Location \<Rightarrow> World \<Rightarrow> run_error option \<times> World" where
  "downloadAndParseEPG env loc w =
     (case downloadFile env of
        Inl err \<Rightarrow> (Some (DownloadFailed err), w)
      | Inr tmpFile \<Rightarrow>
     (case extractTarGz env tmpFile of
        Inl err \<Rightarrow> (Some (ExtractFailed err), w)
      | Inr xmlFilePath \<Rightarrow>
     (case parseEPGXML env xmlFilePath of
        Inl err \<Rightarrow> (Some (ParseXMLFailed err), w)
      | Inr tvData \<Rightarrow>
     (case buildEPGCache loc tvData (epgCache w) of
        (Some err, c) \<Rightarrow> (Some (BuildCacheFailed err), w\<lparr>epgCache := c\<rparr>)
      | (None, c) \<Rightarrow>
     (case saveCache (fileSystem env) (w\<lparr>epgCache := c\<rparr>) of
        (Some err, w') \<Rightarrow> (Some (SaveCacheFailed err), w')
      | (None, w') \<Rightarrow> (None, w'))))))"

section \<open>Concrete inputs\<close>

text \<open>A zone eight hours east of UTC all year, as \<open>Asia/Shanghai\<close> is today.\<close>

definition east8 :: Location where
  "east8 = FixedZone 28800"

text \<open>
  A guide document. Channel \<open>c2\<close> has an empty Chinese name before its real one, channel
  \<open>c3\<close> has no Chinese name, and channel \<open>c4\<close> has the Chinese name of \<open>c1\<close>. The second
  programme has a start of 13 digits.
\<close>

definition ch1 :: Channel where
  "ch1 = \<lparr>ID = ''c1'', DisplayName = [\<lparr>Lang = ''en'', Value = ''One''\<rparr>, \<lparr>Lang = ''zh'', Value = ''CCTV1''\<rparr>]\<rparr>"

definition ch2 :: Channel where
  "ch2 = \<lparr>ID = ''c2'', DisplayName = [\<lparr>Lang = ''zh'', Value = ''''\<rparr>, \<lparr>Lang = ''zh'', Value = ''CCTV2''\<rparr>,
                                     \<lparr>Lang = ''zh'', Value = ''Second''\<rparr>]\<rparr>"

definition ch3 :: Channel where
  "ch3 = \<lparr>ID = ''c3'', DisplayName = [\<lparr>Lang = ''en'', Value = ''Three''\<rparr>]\<rparr>"

definition ch4 :: Channel where
  "ch4 = \<lparr>ID = ''c4'', DisplayName = [\<lparr>Lang = ''zh'', Value = ''CCTV1''\<rparr>]\<rparr>"

definition prog_news :: Programme where
  "prog_news = \<lparr>Start = ''20240101120000 +0800'', Stop = ''20240101130000 +0800'',
                 Channel = ''c1'', Title = ''News''\<rparr>"

definition prog_bad :: Programme where
  "prog_bad = \<lparr>Start = ''2024010112300 +0800'', Stop = ''20240101130000 +0800'',
                Channel = ''c1'', Title = ''Bad''\<rparr>"

definition prog_film :: Programme where
  "prog_film = \<lparr>Start = ''20240101130000 +0800'', Stop = ''20240101143000 +0800'',
                 Channel = ''c1'', Title = ''Film''\<rparr>"

definition prog_night :: Programme where
  "prog_night = \<lparr>Start = ''20240101233000 +0800'', Stop = ''20240102003000 +0800'',
                  Channel = ''c3'', Title = ''Night''\<rparr>"

definition tv_example :: TV where
  "tv_example = \<lparr>Channels = [ch1, ch2, ch3, ch4],
                  Programmes = [prog_news, prog_bad, prog_film, prog_night]\<rparr>"

definition item_news :: ProgramItem where
  "item_news = \<lparr>Start_item = ''12:00'', End_item = ''13:00'', Title_item = ''News''\<rparr>"

definition item_film :: ProgramItem where
  "item_film = \<lparr>Start_item = ''13:00'', End_item = ''14:30'', Title_item = ''Film''\<rparr>"

definition item_night :: ProgramItem where
  "item_night = \<lparr>Start_item = ''23:30'', End_item = ''00:30'', Title_item = ''Night''\<rparr>"

text \<open>
  The document of the specification's end-to-end example: one channel \<open>c1\<close> named
  \<open>CCTV1\<close> and one programme. The two caches are those built from the two documents.
\<close>

definition tv_spec :: TV where
  "tv_spec = \<lparr>Channels = [\<lparr>ID = ''c1'', DisplayName = [\<lparr>Lang = ''zh'', Value = ''CCTV1''\<rparr>]\<rparr>],
               Programmes = [prog_news]\<rparr>"

definition cache_spec :: EPGCache where
  "cache_spec = snd (buildEPGCache east8 tv_spec epgCache_init)"

definition cache_example :: EPGCache where
  "cache_example = snd (buildEPGCache east8 tv_example epgCache_init)"

text \<open>
  A file system on which every call succeeds, and one with a full disk. A run in which
  the feed is fetched and decoded to the document of the specification and the disk is
  full; a run in which the request fails. A program that holds the cache built from
  the first document, with its snapshot on disk.
\<close>

definition fs_ok :: FileSystem where
  "fs_ok = \<lparr>writeFile_error = None, failed_write_leaves = None, readFile_error = None\<rparr>"

definition fs_full :: FileSystem where
  "fs_full = \<lparr>writeFile_error = Some ''no space left on device'', failed_write_leaves = None,
              readFile_error = None\<rparr>"

definition env_disk_full :: Environment where
  "env_disk_full =
     \<lparr>http_Get = Inr 200, os_CreateTemp = Inr ''epg_1.gz'', io_Copy_download = None,
      os_Open_gz = None, gzip_NewReader = None, targetPath = ''epg_1.xml'',
      os_Create_xml = None, io_Copy_extract = None, os_Open_xml = None,
      xml_Decode = Inr tv_spec, fileSystem = fs_full\<rparr>"

definition env_no_network :: Environment where
  "env_no_network = env_disk_full\<lparr>http_Get := Inl ''dial tcp: i/o timeout''\<rparr>"

definition world_old :: World where
  "world_old = \<lparr>epgCache = cache_example, cacheFile = Some (JSONDoc (Marshal cache_example))\<rparr>"

text \<open>
  A programme of month 13 of the year 9999: both timestamps have 14 digits, and
  \<open>time.Date\<close> carries the month over into January of the year 10000.
\<close>

definition prog_far :: Programme where
  "prog_far = \<lparr>Start = ''99991301000000 +0800'', Stop = ''99991301010000 +0800'',
                Channel = ''c1'', Title = ''Far''\<rparr>"

definition item_far :: ProgramItem where
  "item_far = \<lparr>Start_item = ''00:00'', End_item = ''01:00'', Title_item = ''Far''\<rparr>"

definition tv_far :: TV where
  "tv_far = \<lparr>Channels = [ch1], Programmes = [prog_far]\<rparr>"

text \<open>
  Three more runs from the same program: one in which the archive fetched is no gzip
  file, one in which the extracted file is no XML document, and one in which every
  stage succeeds.
\<close>

definition env_bad_archive :: Environment where
  "env_bad_archive = env_disk_full\<lparr>gzip_NewReader := Some ''gzip: invalid header''\<rparr>"

definition env_bad_xml :: Environment where
  "env_bad_xml = env_disk_full\<lparr>xml_Decode := Inl ''XML syntax error on line 1''\<rparr>"

definition env_ok :: Environment where
  "env_ok = env_disk_full\<lparr>fileSystem := fs_ok\<rparr>"

section \<open>The timestamp parser: properties\<close>

lemma Split_not_Nil: "Split s sep \<noteq> []"
  by (subst Split.simps) (simp split: list.split)

lemma Split_first: "Split s sep ! 0 = takeWhile (\<lambda>c. c \<noteq> sep) s"
proof (cases "dropWhile (\<lambda>c. c \<noteq> sep) s")
  case Nil
  then have "takeWhile (\<lambda>c. c \<noteq> sep) s = s"
    by (metis append_Nil2 takeWhile_dropWhile_id)
  moreover have "Split s sep = [s]"
    by (subst Split.simps) (simp only: Nil list.case)
  ultimately show ?thesis by (simp only: nth_Cons_0)
next
  case (Cons x rest)
  have "Split s sep = takeWhile (\<lambda>c. c \<noteq> sep) s # Split rest sep"
    by (subst Split.simps) (simp only: Cons list.case)
  then show ?thesis by simp
qed

lemma parseEPGTime_eq:
  "parseEPGTime loc s =
     (let b = numeric_portion s in
      if length b \<noteq> 14 then Inl WrongLength
      else Inr (Date (fst (Atoi (slice b 0 4))) (fst (Atoi (slice b 4 6)))
                     (fst (Atoi (slice b 6 8))) (fst (Atoi (slice b 8 10)))
                     (fst (Atoi (slice b 10 12))) (fst (Atoi (slice b 12 14))) loc))"
proof -
  have "\<not> length (Split s (CHR '' '')) < 1"
    using Split_not_Nil [of s "CHR '' ''"] by (cases "Split s (CHR '' '')") simp_all
  then show ?thesis
    by (simp add: parseEPGTime_def numeric_portion_def Split_first Let_def)
qed

lemma Atoi_syntax_zero: "snd (Atoi f) = Some ErrSyntax \<Longrightarrow> fst (Atoi f) = 0"
  by (auto simp: Atoi_def Let_def split: list.splits option.splits if_splits)

lemma digitVal_bounds: "isDigit c \<Longrightarrow> 0 \<le> digitVal c \<and> digitVal c \<le> 9"
  by (auto simp: isDigit_def digitVal_def)

lemma digitsVal_bounds:
  "digitsVal n cs = Some v \<Longrightarrow> 0 \<le> n \<Longrightarrow> n * 10 ^ length cs \<le> v \<and> v < (n + 1) * 10 ^ length cs"
proof (induction cs arbitrary: n)
  case Nil
  then show ?case by simp
next
  case (Cons c cs)
  from Cons.prems have d: "isDigit c" and r: "digitsVal (n * 10 + digitVal c) cs = Some v"
    by (auto split: if_splits)
  have b: "0 \<le> digitVal c" "digitVal c \<le> 9" using digitVal_bounds [OF d] by auto
  have nn: "0 \<le> n * 10 + digitVal c" using Cons.prems(2) b by simp
  from Cons.IH [OF r nn]
  have lo: "(n * 10 + digitVal c) * 10 ^ length cs \<le> v"
    and hi: "v < (n * 10 + digitVal c + 1) * 10 ^ length cs" by auto
  have "n * 10 * 10 ^ length cs \<le> (n * 10 + digitVal c) * 10 ^ length cs"
    using b by (intro mult_right_mono) simp_all
  also note lo
  finally have l: "n * 10 ^ length (c # cs) \<le> v" by (simp add: mult.assoc)
  have "(n * 10 + digitVal c + 1) * 10 ^ length cs \<le> (n * 10 + 10) * 10 ^ length cs"
    using b by (intro mult_right_mono) simp_all
  also have "\<dots> = (n + 1) * 10 ^ length (c # cs)" by (simp add: algebra_simps)
  finally have "(n * 10 + digitVal c + 1) * 10 ^ length cs \<le> (n + 1) * 10 ^ length (c # cs)" .
  with hi have "v < (n + 1) * 10 ^ length (c # cs)" by (rule less_le_trans)
  with l show ?case by simp
qed

lemma digitsVal_short:
  assumes "digitsVal 0 cs = Some v" "length cs < 19"
  shows "0 \<le> v \<and> v < 10 ^ 18"
proof -
  from digitsVal_bounds [OF assms(1)] have "0 \<le> v" "v < 10 ^ length cs" by auto
  moreover have "(10::int) ^ length cs \<le> 10 ^ 18"
    using assms(2) by (intro power_increasing) simp_all
  ultimately show ?thesis by simp
qed

lemma Atoi_short_no_range: "length f < 19 \<Longrightarrow> snd (Atoi f) \<noteq> Some ErrRange"
proof (cases f)
  case Nil
  then show ?thesis by (simp add: Atoi_def)
next
  case (Cons c cs)
  assume len: "length f < 19"
  define body where "body = (if c = CHR ''-'' \<or> c = CHR ''+'' then cs else c # cs)"
  have bl: "length body < 19" using len Cons by (auto simp: body_def)
  have A: "Atoi f =
     (if body = [] then (0, Some ErrSyntax)
      else case digitsVal 0 body of
             None \<Rightarrow> (0, Some ErrSyntax)
           | Some n \<Rightarrow>
               (let v = (if c = CHR ''-'' then - n else n) in
                if v > 2 ^ 63 - 1 then (2 ^ 63 - 1, Some ErrRange)
                else if v < - (2 ^ 63) then (- (2 ^ 63), Some ErrRange)
                else (v, None)))"
    unfolding Atoi_def Cons list.case body_def Let_def ..
  show ?thesis
  proof (cases "digitsVal 0 body")
    case None
    then show ?thesis by (simp add: A)
  next
    case (Some n)
    from digitsVal_short [OF Some bl] have "0 \<le> n" "n < 10 ^ 18" by auto
    then have "\<not> n > 2 ^ 63 - 1" "\<not> - n < - (2 ^ 63)" "\<not> n < - (2 ^ 63)" "\<not> - n > 2 ^ 63 - 1"
      by simp_all
    then show ?thesis using Some
      by (simp add: A Let_def)
  qed
qed

lemma Atoi_error_zero: "length f < 19 \<Longrightarrow> snd (Atoi f) \<noteq> None \<Longrightarrow> fst (Atoi f) = 0"
  using Atoi_short_no_range [of f] Atoi_syntax_zero [of f]
  by (cases "snd (Atoi f)") (auto intro: num_error.exhaust)



lemmas eval_simps = numeric_portion_def slice_def Atoi_def isDigit_def digitVal_def Let_def

text \<open>
  Claim C10. For every input string, \<open>parseEPGTime\<close> returns an error if and only if
  the text before the first space is not exactly 14 bytes long. \<open>strings.Split\<close> never
  returns an empty list, so the branch guarded by \<open>len(parts) < 1\<close> is never taken and the
  error is never \<open>InvalidTimeFormat\<close>. With 14 bytes the result is the instant that
  \<open>time.Date\<close> makes of the six fields in the local zone, and a field on which
  \<open>strconv.Atoi\<close> reports an error counts as 0.
\<close>

theorem parseEPGTime_error_iff_length:
  "(isl (parseEPGTime loc s) \<longleftrightarrow> length (numeric_portion s) \<noteq> 14)
   \<and> \<not> length (Split s (CHR '' '')) < 1
   \<and> parseEPGTime loc s \<noteq> Inl InvalidTimeFormat
   \<and> (length (numeric_portion s) = 14 \<longrightarrow>
        (let b = numeric_portion s in
         parseEPGTime loc s =
           Inr (Date (fst (Atoi (slice b 0 4))) (fst (Atoi (slice b 4 6)))
                     (fst (Atoi (slice b 6 8))) (fst (Atoi (slice b 8 10)))
                     (fst (Atoi (slice b 10 12))) (fst (Atoi (slice b 12 14))) loc)
         \<and> (\<forall>lo hi. snd (Atoi (slice b lo hi)) \<noteq> None \<longrightarrow> fst (Atoi (slice b lo hi)) = 0)))"
proof -
  have 1: "isl (parseEPGTime loc s) \<longleftrightarrow> length (numeric_portion s) \<noteq> 14"
    by (simp add: parseEPGTime_eq Let_def)
  have 2: "\<not> length (Split s (CHR '' '')) < 1"
    using Split_not_Nil [of s "CHR '' ''"] by (cases "Split s (CHR '' '')") simp_all
  have 3: "parseEPGTime loc s \<noteq> Inl InvalidTimeFormat"
    by (simp add: parseEPGTime_eq Let_def)
  have 4: "fst (Atoi (slice (numeric_portion s) lo hi)) = 0"
    if "length (numeric_portion s) = 14" "snd (Atoi (slice (numeric_portion s) lo hi)) \<noteq> None"
    for lo hi
  proof -
    have "length (slice (numeric_portion s) lo hi) < 19"
      using that(1) by (simp add: slice_def)
    then show ?thesis using that(2) by (rule Atoi_error_zero)
  qed
  show ?thesis using 1 2 3 4 by (simp add: parseEPGTime_eq Let_def)
qed

text \<open>
  The month field \<open>ab\<close> is no integer: \<open>Atoi\<close> reports an error, the month is 0, and
  the parser still returns an instant.
\<close>

theorem parseEPGTime_error_iff_length_witness:
  "length (numeric_portion ''2024ab01120000 +0800'') = 14
   \<and> snd (Atoi (slice (numeric_portion ''2024ab01120000 +0800'') 4 6)) \<noteq> None
   \<and> fst (Atoi (slice (numeric_portion ''2024ab01120000 +0800'') 4 6)) = 0
   \<and> \<not> isl (parseEPGTime east8 ''2024ab01120000 +0800'')
   \<and> parseEPGTime east8 ''2024ab01120000 +0800'' = Inr (Date 2024 0 1 12 0 0 east8)"
  using parseEPGTime_error_iff_length [of east8 "''2024ab01120000 +0800''"]
  by (simp add: eval_simps)

text \<open>
  Claim C1 as written fails: the month field of \<open>2024ab01120000\<close> fails integer parsing,
  and the parser returns the instant 2023-12-01 12:00:00 +08:00 instead of an error.
\<close>

theorem parseEPGTime_unparsable_field_counterexample:
  "snd (Atoi (slice (numeric_portion ''2024ab01120000'') 4 6)) = Some ErrSyntax
   \<and> parseEPGTime east8 ''2024ab01120000'' = Inr 1701403200"
  by (simp add: parseEPGTime_eq eval_simps Date_def norm_def daysSinceEpoch_def daysBefore_def
      isLeap_def unixToInternal_def east8_def FixedZone_def)

text \<open>
  Claim C1, amended. For every input string whose numeric portion (the text before the
  first space) is not exactly 14 bytes long, \<open>parseEPGTime\<close> fails, with the error
  \<open>WrongLength\<close>. A field that fails integer parsing causes no failure.
\<close>

theorem parseEPGTime_wrong_length:
  "length (numeric_portion s) \<noteq> 14 \<Longrightarrow> parseEPGTime loc s = Inl WrongLength"
  by (simp add: parseEPGTime_eq Let_def)

theorem parseEPGTime_wrong_length_witness:
  "length (numeric_portion ''202401011200 +0800'') \<noteq> 14
   \<and> parseEPGTime east8 ''202401011200 +0800'' = Inl WrongLength"
  using parseEPGTime_wrong_length [of "''202401011200 +0800''" east8]
  by (simp add: numeric_portion_def)

lemma numeric_portion_append: "CHR '' '' \<notin> set b \<Longrightarrow> numeric_portion (b @ CHR '' '' # tz) = b"
  by (induction b) (auto simp: numeric_portion_def)

lemma numeric_portion_id: "CHR '' '' \<notin> set b \<Longrightarrow> numeric_portion b = b"
  by (auto simp: numeric_portion_def takeWhile_eq_all_conv)

text \<open>
  Claim C8. For a numeric portion \<open>b\<close> of 14 bytes, the instant returned is the same
  whether \<open>b\<close> stands alone or is followed by a space and any token \<open>tz\<close>; it is the
  instant that \<open>time.Date\<close> makes of the six fields in the local zone \<open>loc\<close>, so nothing
  of \<open>tz\<close> reaches the result.
\<close>

theorem parseEPGTime_ignores_offset:
  assumes "length b = 14" and "CHR '' '' \<notin> set b"
  shows "parseEPGTime loc (b @ CHR '' '' # tz) = parseEPGTime loc b
         \<and> parseEPGTime loc b =
             Inr (Date (fst (Atoi (slice b 0 4))) (fst (Atoi (slice b 4 6)))
                       (fst (Atoi (slice b 6 8))) (fst (Atoi (slice b 8 10)))
                       (fst (Atoi (slice b 10 12))) (fst (Atoi (slice b 12 14))) loc)"
  using assms by (simp add: parseEPGTime_eq numeric_portion_append numeric_portion_id Let_def)

theorem parseEPGTime_ignores_offset_witness:
  "length ''20240101120000'' = 14 \<and> CHR '' '' \<notin> set ''20240101120000''
   \<and> parseEPGTime east8 ''20240101120000 -0500'' = parseEPGTime east8 ''20240101120000''
   \<and> parseEPGTime east8 ''20240101120000'' = Inr (Date 2024 1 1 12 0 0 east8)"
  using parseEPGTime_ignores_offset [of "''20240101120000''" east8 "''-0500''"]
  by (simp add: eval_simps)

section \<open>The index builder: helper lemmas\<close>

subsection \<open>The name index\<close>

lemma scanDisplayNames_find:
  "scanDisplayNames i dns m =
     (case find (\<lambda>dn. Lang dn = ''zh'' \<and> Value dn \<noteq> '''') dns of
        None \<Rightarrow> m
      | Some dn \<Rightarrow> fmupd (Value dn) i m)"
  by (induction dns) simp_all

lemma scanDisplayNames_zhName:
  "scanDisplayNames (ID ch) (DisplayName ch) m =
     (case zhName ch of None \<Rightarrow> m | Some n \<Rightarrow> fmupd n (ID ch) m)"
  by (simp add: scanDisplayNames_find zhName_def split: option.split)

lemma find_snoc:
  "find P (xs @ [x]) = (case find P xs of None \<Rightarrow> (if P x then Some x else None) | Some y \<Rightarrow> Some y)"
  by (induction xs) simp_all

lemma fold_scan_lookup:
  "fmlookup (fold (\<lambda>ch m. scanDisplayNames (ID ch) (DisplayName ch) m) chs m) name =
     (case find (\<lambda>ch. zhName ch = Some name) (rev chs) of
        None \<Rightarrow> fmlookup m name
      | Some ch \<Rightarrow> Some (ID ch))"
proof (induction chs arbitrary: m)
  case Nil
  then show ?case by simp
next
  case (Cons ch chs)
  let ?f = "\<lambda>ch m. scanDisplayNames (ID ch) (DisplayName ch) m"
  have "fmlookup (fold ?f (ch # chs) m) name = fmlookup (fold ?f chs (?f ch m)) name"
    by simp
  also have "\<dots> = (case find (\<lambda>ch. zhName ch = Some name) (rev chs) of
                      None \<Rightarrow> fmlookup (?f ch m) name
                    | Some c \<Rightarrow> Some (ID c))"
    by (rule Cons.IH)
  also have "\<dots> = (case find (\<lambda>ch. zhName ch = Some name) (rev (ch # chs)) of
                      None \<Rightarrow> fmlookup m name
                    | Some c \<Rightarrow> Some (ID c))"
    by (cases "zhName ch") (auto simp: scanDisplayNames_zhName find_snoc split: option.split)
  finally show ?case .
qed

subsection \<open>The programme index\<close>


lemma addProgramme_skip:
  "derivedItem loc p = None \<Longrightarrow> addProgramme loc p pd = pd"
  by (auto simp: derivedItem_def addProgramme_def split: sum.splits)

lemma addProgramme_bucket:
  "derivedItem loc p = Some (d', item) \<Longrightarrow>
   bucket (addProgramme loc p pd) ch d =
     (if Channel p = ch \<and> d' = d then Some (itemsOf (bucket pd ch d) @ [item]) else bucket pd ch d)"
  by (auto simp: derivedItem_def addProgramme_def bucket_def itemsOf_def Let_def
           split: sum.splits option.splits)

lemma fold_addProgramme_bucket:
  "bucket (fold (addProgramme loc) ps pd) ch d =
     (if bucketItems loc ps ch d = [] then bucket pd ch d
      else Some (itemsOf (bucket pd ch d) @ bucketItems loc ps ch d))"
proof (induction ps arbitrary: pd)
  case Nil
  then show ?case by (simp add: bucketItems_def List.map_filter_simps)
next
  case (Cons p ps)
  show ?case
  proof (cases "derivedItem loc p")
    case None
    then show ?thesis
      by (simp add: Cons.IH addProgramme_skip bucketItems_def List.map_filter_simps)
  next
    case (Some a)
    obtain d' item where a: "a = (d', item)" by (cases a)
    show ?thesis
      using Some
      by (simp add: a Cons.IH addProgramme_bucket bucketItems_def List.map_filter_simps itemsOf_def)
  qed
qed

lemma ProgramData_build:
  "ProgramData (snd (buildEPGCache loc tv c)) = fold (addProgramme loc) (Programmes tv) fmempty"
  by (simp add: buildEPGCache_def Let_def)

lemma ChannelMap_build:
  "ChannelMap (snd (buildEPGCache loc tv c)) =
     fold (\<lambda>ch m. scanDisplayNames (ID ch) (DisplayName ch) m) (Channels tv) fmempty"
  by (simp add: buildEPGCache_def Let_def)

lemma fst_buildEPGCache: "fst (buildEPGCache loc tv c) = None"
  by (simp add: buildEPGCache_def Let_def)

lemma bucket_empty: "bucket fmempty ch d = None"
  by (simp add: bucket_def)


subsection \<open>Shapes of the formatted strings\<close>

lemma char_of_48: "char_of (48::nat) = CHR ''0''"
  by (rule char_of_eq_iff [THEN iffD2]) simp

lemma isDigit_char_of: "(k::nat) < 10 \<Longrightarrow> isDigit (char_of (48 + k))"
  by (simp add: isDigit_def)

lemma digits_lt_10: "n < 10 \<Longrightarrow> digits n = [char_of (48 + n)]"
  by (subst digits.simps) simp

lemma digits_lt_100: "10 \<le> n \<Longrightarrow> n < 100 \<Longrightarrow> digits n = [char_of (48 + n div 10), char_of (48 + n mod 10)]"
  by (subst digits.simps) (simp add: digits_lt_10)

lemma appendInt_2:
  assumes "0 \<le> x" "x < 100"
  shows "appendInt x 2 = [char_of (48 + nat x div 10), char_of (48 + nat x mod 10)]"
proof (cases "nat x < 10")
  case True
  then show ?thesis using assms by (simp add: appendInt_def digits_lt_10 Let_def char_of_48)
next
  case False
  then have "10 \<le> nat x" "nat x < 100" using assms by auto
  then show ?thesis using assms by (simp add: appendInt_def digits_lt_100 Let_def)
qed

lemma isHHMM_Format_clock: "isHHMM (Format_clock loc t)"
proof -
  define secs where "secs = absSec loc t mod 86400"
  have s: "0 \<le> secs" "secs < 86400" by (simp_all add: secs_def)
  have h: "0 \<le> secs div 3600" "secs div 3600 < 100" using s by auto
  have m: "0 \<le> (secs mod 3600) div 60" "(secs mod 3600) div 60 < 100" by auto
  have d: "nat (secs div 3600) div 10 < 10" "nat ((secs mod 3600) div 60) div 10 < 10"
    using h m by (auto intro!: less_mult_imp_div_less)
  have "Format_clock loc t = appendInt (secs div 3600) 2 @ '':'' @ appendInt ((secs mod 3600) div 60) 2"
    by (simp add: Format_clock_def secs_def Let_def)
  then show ?thesis
    by (simp add: appendInt_2 [OF h] appendInt_2 [OF m] isHHMM_def isDigit_char_of d)
qed

subsection \<open>Calendar bounds\<close>

lemma int_div_bounds:
  fixes x k :: int
  assumes "0 < k"
  shows "k * (x div k) \<le> x \<and> x < k * (x div k) + k"
proof -
  have "x = k * (x div k) + x mod k" by simp
  moreover have "0 \<le> x mod k" "x mod k < k" using assms by simp_all
  ultimately show ?thesis by linarith
qed

lemma small_cases:
  "0 \<le> (k::int) \<Longrightarrow> k \<le> 11 \<Longrightarrow>
    k = 0 \<or> k = 1 \<or> k = 2 \<or> k = 3 \<or> k = 4 \<or> k = 5 \<or> k = 6 \<or> k = 7 \<or> k = 8 \<or> k = 9 \<or> k = 10 \<or> k = 11"
  by arith

lemma monthDay_bounds:
  assumes "0 \<le> day" "day \<le> 364"
  shows "1 \<le> fst (monthDay day) \<and> fst (monthDay day) \<le> 12
         \<and> 1 \<le> snd (monthDay day) \<and> snd (monthDay day) \<le> 31"
proof -
  have bnd: "31 * (day div 31) \<le> day \<and> day < 31 * (day div 31) + 31"
    by (rule int_div_bounds) simp
  then have "0 \<le> day div 31" "day div 31 \<le> 11" using assms by linarith+
  then have "day div 31 = 0 \<or> day div 31 = 1 \<or> day div 31 = 2 \<or> day div 31 = 3
    \<or> day div 31 = 4 \<or> day div 31 = 5 \<or> day div 31 = 6 \<or> day div 31 = 7
    \<or> day div 31 = 8 \<or> day div 31 = 9 \<or> day div 31 = 10 \<or> day div 31 = 11"
    by (rule small_cases)
  then consider "day div 31 = 0" | "day div 31 = 1" | "day div 31 = 2" | "day div 31 = 3"
    | "day div 31 = 4" | "day div 31 = 5" | "day div 31 = 6" | "day div 31 = 7"
    | "day div 31 = 8" | "day div 31 = 9" | "day div 31 = 10" | "day div 31 = 11"
    by blast
  then show ?thesis
  proof cases
    case 1
    then show ?thesis using bnd assms by (simp add: monthDay_def daysBefore_def Let_def)
  next
    case 2
    then show ?thesis using bnd assms by (simp add: monthDay_def daysBefore_def Let_def)
  next
    case 3
    then show ?thesis using bnd assms by (simp add: monthDay_def daysBefore_def Let_def)
  next
    case 4
    then show ?thesis using bnd assms by (simp add: monthDay_def daysBefore_def Let_def)
  next
    case 5
    then show ?thesis using bnd assms by (simp add: monthDay_def daysBefore_def Let_def)
  next
    case 6
    then show ?thesis using bnd assms by (simp add: monthDay_def daysBefore_def Let_def)
  next
    case 7
    then show ?thesis using bnd assms by (simp add: monthDay_def daysBefore_def Let_def)
  next
    case 8
    then show ?thesis using bnd assms by (simp add: monthDay_def daysBefore_def Let_def)
  next
    case 9
    then show ?thesis using bnd assms by (simp add: monthDay_def daysBefore_def Let_def)
  next
    case 10
    then show ?thesis using bnd assms by (simp add: monthDay_def daysBefore_def Let_def)
  next
    case 11
    then show ?thesis using bnd assms by (simp add: monthDay_def daysBefore_def Let_def)
  next
    case 12
    then show ?thesis using bnd assms by (simp add: monthDay_def daysBefore_def Let_def)
  qed
qed

lemma absDate_bounds:
  assumes "absDate days = (y, m, d)"
  shows "1 \<le> m \<and> m \<le> 12 \<and> 1 \<le> d \<and> d \<le> 31"
proof -
  define n400 where "n400 = days div 146097"
  define d1 where "d1 = days - 146097 * n400"
  define c where "c = d1 div 36524"
  define n100 where "n100 = c - c div 4"
  define d2 where "d2 = d1 - 36524 * n100"
  define n4 where "n4 = d2 div 1461"
  define d3 where "d3 = d2 - 1461 * n4"
  define q where "q = d3 div 365"
  define n1 where "n1 = q - q div 4"
  define yday where "yday = d3 - 365 * n1"
  define year where "year = 400 * n400 + 100 * n100 + 4 * n4 + n1 + 1"
  have A: "absDate days =
     (if isLeap year \<and> yday = 31 + 29 - 1 then (year, 2, 29)
      else (year, monthDay (if isLeap year \<and> yday > 31 + 29 - 1 then yday - 1 else yday)))"
    unfolding absDate_def Let_def year_def yday_def n1_def q_def d3_def n4_def d2_def n100_def
      c_def d1_def n400_def ..
  have b1: "0 \<le> d1 \<and> d1 \<le> 146096"
    using int_div_bounds [of 146097 days] by (simp add: d1_def n400_def)
  have bc: "0 \<le> c \<and> c \<le> 4"
    using int_div_bounds [of 36524 d1] b1 by (simp add: c_def)
  have c4: "c div 4 = (if c = 4 then 1 else 0)" using bc by presburger
  have b2: "0 \<le> d2 \<and> d2 \<le> 36524 \<and> (d2 = 36524 \<longrightarrow> n100 = 3)"
    using int_div_bounds [of 36524 d1] b1 bc
    by (auto simp: d2_def n100_def c4 c_def [symmetric])
  have b4: "0 \<le> n4 \<and> n4 \<le> 24"
    using int_div_bounds [of 1461 d2] b2 by (simp add: n4_def)
  have b3: "0 \<le> d3 \<and> d3 \<le> 1460"
    using int_div_bounds [of 1461 d2] by (simp add: d3_def n4_def)
  have bq: "0 \<le> q \<and> q \<le> 4"
    using int_div_bounds [of 365 d3] b3 by (simp add: q_def)
  have q4: "q div 4 = (if q = 4 then 1 else 0)" using bq by presburger
  have byd: "0 \<le> yday \<and> yday \<le> 365 \<and> (yday = 365 \<longrightarrow> n1 = 3 \<and> d3 = 1460)"
    using int_div_bounds [of 365 d3] b3 bq
    by (auto simp: yday_def n1_def q4 q_def [symmetric])
  have leap: "isLeap year" if "yday = 365"
  proof -
    from that byd have n1: "n1 = 3" and d3: "d3 = 1460" by auto
    have y: "year = 400 * n400 + 100 * n100 + 4 * n4 + 4" by (simp add: year_def n1)
    have "year = 4 * (100 * n400 + 25 * n100 + n4 + 1)" by (simp add: y)
    then have "year mod 4 = 0" by simp
    moreover have "year mod 400 = 0" if "year mod 100 = 0"
    proof -
      have "year = (4 * n4 + 4) + 100 * (4 * n400 + n100)" by (simp add: y)
      then have "year mod 100 = (4 * n4 + 4) mod 100" by (simp only: mod_mult_self2)
      with that have "(4 * n4 + 4) mod 100 = 0" by simp
      then have "n4 = 24" using b4 by presburger
      then have "d2 = 36524" using d3 unfolding d3_def by simp
      then have "n100 = 3" using b2 by simp
      then have "year = 400 * (n400 + 1)" using \<open>n4 = 24\<close> by (simp add: y)
      then show ?thesis by simp
    qed
    ultimately show ?thesis by (auto simp: isLeap_def)
  qed
  show ?thesis
  proof (cases "isLeap year \<and> yday = 31 + 29 - 1")
    case True
    then show ?thesis using assms A by auto
  next
    case False
    define day where "day = (if isLeap year \<and> yday > 31 + 29 - 1 then yday - 1 else yday)"
    have yd: "0 \<le> yday" "yday \<le> 365" using byd by simp_all
    have "0 \<le> day" "day \<le> 364"
    proof -
      show "0 \<le> day" using yd by (simp add: day_def)
      show "day \<le> 364"
      proof (cases "yday = 365")
        case True
        then show ?thesis using leap by (simp add: day_def)
      next
        case False
        then show ?thesis using yd by (simp add: day_def)
      qed
    qed
    note mb = monthDay_bounds [OF this]
    have "absDate days = (year, monthDay day)"
      by (simp only: A day_def False if_False)
    with assms have "monthDay day = (m, d)" by simp
    with mb show ?thesis by simp
  qed
qed



lemma digits_isDigit: "c \<in> set (digits n) \<Longrightarrow> isDigit c"
proof (induction n rule: digits.induct)
  case (1 n)
  show ?case
  proof (cases "n < 10")
    case True
    then show ?thesis using "1.prems" by (simp add: digits_lt_10 isDigit_char_of)
  next
    case False
    have "digits n = digits (n div 10) @ [char_of (48 + n mod 10)]"
      using False by (subst digits.simps) simp
    then show ?thesis using "1.prems" "1.IH" [OF False] by (auto simp: isDigit_char_of)
  qed
qed

lemma digits_length: "n < 10 ^ k \<Longrightarrow> 0 < k \<Longrightarrow> length (digits n) \<le> k"
proof (induction n arbitrary: k rule: digits.induct)
  case (1 n)
  show ?case
  proof (cases "n < 10")
    case True
    then show ?thesis using "1.prems" by (simp add: digits_lt_10)
  next
    case False
    have e: "digits n = digits (n div 10) @ [char_of (48 + n mod 10)]"
      using False by (subst digits.simps) simp
    obtain j where k: "k = Suc j" using "1.prems"(2) by (cases k) auto
    have "j \<noteq> 0" using False "1.prems"(1) k by (cases j) auto
    moreover have "n div 10 < 10 ^ j" using "1.prems"(1) k by (simp add: less_mult_imp_div_less)
    ultimately have "length (digits (n div 10)) \<le> j" using "1.IH" [OF False] by simp
    then show ?thesis by (simp add: e k)
  qed
qed

lemma appendInt_width:
  assumes "0 \<le> x" "x < 10 ^ w" "0 < w"
  shows "length (appendInt x w) = w \<and> (\<forall>c\<in>set (appendInt x w). isDigit c)"
proof -
  have "nat x < 10 ^ w" using assms(1,2) by (simp add: nat_less_iff)
  then have "length (digits (nat \<bar>x\<bar>)) \<le> w" using assms by (simp add: digits_length)
  moreover have "isDigit (CHR ''0'')" by (simp add: isDigit_def)
  ultimately show ?thesis using assms(1)
    by (auto simp: appendInt_def Let_def digits_isDigit)
qed

lemma list4: "length xs = 4 \<Longrightarrow> \<exists>a b c d. xs = [a, b, c, d]"
  by (auto simp: numeral_eq_Suc length_Suc_conv)

lemma isYMD_Format_date:
  assumes "0 \<le> Year loc t" "Year loc t \<le> 9999"
  shows "isYMD (Format_date loc t)"
proof -
  obtain y m d where a: "absDate (absSec loc t div 86400) = (y, m, d)"
    by (cases "absDate (absSec loc t div 86400)") auto
  from absDate_bounds [OF a] have m: "0 \<le> m" "m < 100" and d: "0 \<le> d" "d < 100" by auto
  have y: "0 \<le> y" "y < 10 ^ 4" using assms a by (simp_all add: Year_def)
  from appendInt_width [OF y] have yl: "length (appendInt y 4) = 4"
    and yd: "\<forall>c\<in>set (appendInt y 4). isDigit c" by auto
  from list4 [OF yl] obtain y1 y2 y3 y4 where ys: "appendInt y 4 = [y1, y2, y3, y4]" by blast
  define m1 where "m1 = char_of (48 + nat m div 10)"
  define m2 where "m2 = char_of (48 + nat m mod 10)"
  define d1 where "d1 = char_of (48 + nat d div 10)"
  define d2 where "d2 = char_of (48 + nat d mod 10)"
  have "nat m div 10 < 10" "nat d div 10 < 10"
    using m d by (auto intro!: less_mult_imp_div_less)
  then have dg: "isDigit m1" "isDigit m2" "isDigit d1" "isDigit d2"
    by (simp_all add: m1_def m2_def d1_def d2_def isDigit_char_of)
  have yg: "isDigit y1" "isDigit y2" "isDigit y3" "isDigit y4"
    using yd by (simp_all add: ys)
  have "Format_date loc t = appendInt y 4 @ ''-'' @ appendInt m 2 @ ''-'' @ appendInt d 2"
    by (simp add: Format_date_def a)
  also have "\<dots> = [y1, y2, y3, y4, CHR ''-'', m1, m2, CHR ''-'', d1, d2]"
    by (simp add: ys appendInt_2 [OF m] appendInt_2 [OF d] m1_def m2_def d1_def d2_def)
  finally have "Format_date loc t = [y1, y2, y3, y4, CHR ''-'', m1, m2, CHR ''-'', d1, d2]" .
  then show ?thesis using dg yg by (simp add: isYMD_def)
qed

section \<open>The index builder: properties\<close>

text \<open>
  Claim C5, amended. A programme \<open>p\<close> whose start and stop parse to the instants \<open>st\<close>
  and \<open>sp\<close> is filed under the date of \<open>st\<close> in the local zone, written with the layout
  \<open>2006-01-02\<close>; that is ten characters \<open>YYYY-MM-DD\<close> when the year of that date is
  from 0 to 9999, and not otherwise promised. Its item carries start and end as two
  digits, a colon and two digits; the item is appended to the bucket
  \<open>[Channel p][date]\<close>, which is created when it is missing, and no other bucket
  changes. After the build every bucket holds the items of its programmes in the
  order of the feed.
\<close>

theorem buildEPGCache_appends_in_feed_order:
  "(parseEPGTime loc (Start p) = Inr st \<and> parseEPGTime loc (Stop p) = Inr sp \<longrightarrow>
      (let dateStr = Format_date loc st;
           item = \<lparr>Start_item = Format_clock loc st, End_item = Format_clock loc sp,
                   Title_item = Title p\<rparr>
       in derivedItem loc p = Some (dateStr, item)
          \<and> bucket (addProgramme loc p pd) (Channel p) dateStr
              = Some (itemsOf (bucket pd (Channel p) dateStr) @ [item])
          \<and> (\<forall>ch' d'. \<not> (ch' = Channel p \<and> d' = dateStr) \<longrightarrow>
                 bucket (addProgramme loc p pd) ch' d' = bucket pd ch' d')
          \<and> isHHMM (Start_item item) \<and> isHHMM (End_item item)
          \<and> (0 \<le> Year loc st \<and> Year loc st \<le> 9999 \<longrightarrow> isYMD dateStr)))
   \<and> bucket (ProgramData (snd (buildEPGCache loc tv c))) ch d =
         (if bucketItems loc (Programmes tv) ch d = [] then None
          else Some (bucketItems loc (Programmes tv) ch d))"
proof -
  have step: ?thesis if *: "parseEPGTime loc (Start p) = Inr st" "parseEPGTime loc (Stop p) = Inr sp"
    and fin: "bucket (ProgramData (snd (buildEPGCache loc tv c))) ch d =
         (if bucketItems loc (Programmes tv) ch d = [] then None
          else Some (bucketItems loc (Programmes tv) ch d))"
  proof -
    define dateStr where "dateStr = Format_date loc st"
    define item where "item = \<lparr>Start_item = Format_clock loc st, End_item = Format_clock loc sp,
                   Title_item = Title p\<rparr>"
    have di: "derivedItem loc p = Some (dateStr, item)"
      by (simp add: derivedItem_def * dateStr_def item_def)
    have a: "bucket (addProgramme loc p pd) (Channel p) dateStr
              = Some (itemsOf (bucket pd (Channel p) dateStr) @ [item])"
      by (simp add: addProgramme_bucket [OF di])
    have b: "bucket (addProgramme loc p pd) ch' d' = bucket pd ch' d'"
      if "\<not> (ch' = Channel p \<and> d' = dateStr)" for ch' d'
      using that by (auto simp: addProgramme_bucket [OF di])
    have h: "isHHMM (Start_item item)" "isHHMM (End_item item)"
      by (simp_all add: item_def isHHMM_Format_clock)
    have y: "isYMD dateStr" if "0 \<le> Year loc st \<and> Year loc st \<le> 9999"
      using that by (simp add: dateStr_def isYMD_Format_date)
    show ?thesis
      using di a b h y fin unfolding Let_def dateStr_def [symmetric] item_def [symmetric]
      by blast
  qed
  have fin: "bucket (ProgramData (snd (buildEPGCache loc tv c))) ch d =
         (if bucketItems loc (Programmes tv) ch d = [] then None
          else Some (bucketItems loc (Programmes tv) ch d))"
    by (simp add: ProgramData_build fold_addProgramme_bucket bucket_empty itemsOf_def)
  show ?thesis
  proof (cases "parseEPGTime loc (Start p) = Inr st \<and> parseEPGTime loc (Stop p) = Inr sp")
    case True
    then show ?thesis using step fin by blast
  next
    case False
    then show ?thesis using fin by blast
  qed
qed

lemma eval_prog_news:
  "parseEPGTime east8 (Start prog_news) = Inr 1704081600"
  "parseEPGTime east8 (Stop prog_news) = Inr 1704085200"
  "Format_date east8 1704081600 = ''2024-01-01''"
  "Format_clock east8 1704081600 = ''12:00''"
  "Format_clock east8 1704085200 = ''13:00''"
  "Year east8 1704081600 = 2024"
  "Channel prog_news = ''c1''"
  "Title prog_news = ''News''"
  "Start_item item_news = ''12:00''"
  "End_item item_news = ''13:00''"
  by code_simp+

lemma eval_tv_example_buckets:
  "bucketItems east8 (Programmes tv_example) ''c1'' ''2024-01-01'' = [item_news, item_film]"
  "bucketItems east8 (Programmes tv_example) ''c3'' ''2024-01-01'' = [item_night]"
  "bucketItems east8 (Programmes tv_example) ''c3'' ''2024-01-02'' = []"
  by code_simp+

theorem buildEPGCache_appends_in_feed_order_witness:
  "parseEPGTime east8 (Start prog_news) = Inr 1704081600
   \<and> parseEPGTime east8 (Stop prog_news) = Inr 1704085200
   \<and> 0 \<le> Year east8 1704081600 \<and> Year east8 1704081600 \<le> 9999
   \<and> derivedItem east8 prog_news = Some (''2024-01-01'', item_news)
   \<and> bucket (addProgramme east8 prog_news fmempty) ''c1'' ''2024-01-01'' = Some [item_news]
   \<and> bucket (addProgramme east8 prog_news fmempty) ''c1'' ''2024-01-02'' = None
   \<and> isHHMM ''12:00'' \<and> isHHMM ''13:00'' \<and> isYMD ''2024-01-01''
   \<and> bucket (ProgramData (snd (buildEPGCache east8 tv_example epgCache_init))) ''c1'' ''2024-01-01''
       = Some [item_news, item_film]"
  using buildEPGCache_appends_in_feed_order
          [of east8 prog_news 1704081600 1704085200 fmempty tv_example epgCache_init
              "''c1''" "''2024-01-01''"]
  by (simp add: eval_prog_news eval_tv_example_buckets Let_def item_news_def [symmetric]
        bucket_empty itemsOf_def)

lemma bucketItems_skip:
  assumes "derivedItem loc p = None"
  shows "bucketItems loc (ps @ p # qs) ch d = bucketItems loc (ps @ qs) ch d"
  using assms by (simp add: bucketItems_def List.map_filter_def)

lemma bucketItems_member:
  assumes "q \<in> set ps" and "derivedItem loc q = Some (d, item)"
  shows "item \<in> set (bucketItems loc ps (Channel q) d)"
  using assms by (force simp: bucketItems_def List.map_filter_def)

lemma bucket_build:
  "bucket (ProgramData (snd (buildEPGCache loc tv c))) ch d =
     (if bucketItems loc (Programmes tv) ch d = [] then None
      else Some (bucketItems loc (Programmes tv) ch d))"
  by (simp add: ProgramData_build fold_addProgramme_bucket bucket_empty itemsOf_def)

lemma digits_10000: "digits 10000 = ''10000''"
proof -
  have c: "char_of (48 + (1::nat)) = CHR ''1''" "char_of (48 + (0::nat)) = CHR ''0''"
    by code_simp+
  have 1: "digits 1 = ''1''"
    by (subst digits.simps) (simp only: c, simp)
  have s: "digits (10 * n) = digits n @ ''0''" if "0 < n" for n
    using that by (subst digits.simps) (simp add: char_of_48)
  have "digits (10 * (10 * (10 * (10 * 1)))) = ''10000''"
    by (simp only: s 1, simp)
  then show ?thesis by simp
qed

lemma Format_date_far: "Format_date east8 253402272000 = ''10000-01-01''"
proof -
  have d: "absDate 3652059 = (10000, 1, 1)"
    by code_simp
  have a: "absSec east8 253402272000 div 86400 = 3652059"
    by code_simp
  have m: "appendInt 1 2 = ''01''"
    by code_simp
  have y: "appendInt 10000 4 = ''10000''"
    by (simp add: appendInt_def digits_10000)
  show ?thesis
    by (simp add: Format_date_def a d m y)
qed

lemma eval_prog_far:
  "parseEPGTime east8 (Start prog_far) = Inr 253402272000"
  "parseEPGTime east8 (Stop prog_far) = Inr 253402275600"
  "Format_clock east8 253402272000 = ''00:00''"
  "Format_clock east8 253402275600 = ''01:00''"
  "Title prog_far = ''Far''"
  "Channel prog_far = ''c1''"
  "Programmes tv_far = [prog_far]"
  "\<not> isYMD ''10000-01-01''"
  by code_simp+

lemma derivedItem_far: "derivedItem east8 prog_far = Some (''10000-01-01'', item_far)"
  by (simp add: derivedItem_def eval_prog_far Format_date_far item_far_def)

text \<open>
  Claim C5 as written fails. The start and the stop of the programme \<open>prog_far\<close> both
  parse; the builder files its item under \<open>10000-01-01\<close>, which has eleven characters
  and is no date written \<open>YYYY-MM-DD\<close>.
\<close>

theorem buildEPGCache_date_shape_counterexample:
  "\<not> isl (parseEPGTime east8 (Start prog_far))
   \<and> \<not> isl (parseEPGTime east8 (Stop prog_far))
   \<and> derivedItem east8 prog_far = Some (''10000-01-01'', item_far)
   \<and> bucket (ProgramData (snd (buildEPGCache east8 tv_far epgCache_init))) ''c1'' ''10000-01-01''
       = Some [item_far]
   \<and> \<not> isYMD ''10000-01-01''"
  by (simp add: eval_prog_far derivedItem_far bucket_build bucketItems_def List.map_filter_def)

text \<open>
  Claim C7. The build returns no error, whatever the document. A programme \<open>p\<close> whose
  start or stop fails to parse, as one with a numeric portion that is not 14 bytes long
  does, leaves the index as it is and contributes no item: the build of a document
  that holds \<open>p\<close> between the programmes \<open>ps\<close> and \<open>qs\<close> gives the same cache as the build
  of the document without \<open>p\<close>. Every other programme is still processed: each bucket
  of that build holds exactly the items derived from \<open>ps\<close> and \<open>qs\<close>, in their order, so
  that the item of every programme of \<open>ps\<close> and \<open>qs\<close> that parses is in the bucket of its
  channel and date.
\<close>

theorem buildEPGCache_skips_unparsable:
  "fst (buildEPGCache loc tv c) = None
   \<and> (isl (parseEPGTime loc (Start p)) \<or> isl (parseEPGTime loc (Stop p)) \<longrightarrow>
        addProgramme loc p pd = pd
        \<and> buildEPGCache loc (tv\<lparr>Programmes := ps @ p # qs\<rparr>) c
            = buildEPGCache loc (tv\<lparr>Programmes := ps @ qs\<rparr>) c
        \<and> (\<forall>ch d. bucket (ProgramData (snd (buildEPGCache loc (tv\<lparr>Programmes := ps @ p # qs\<rparr>) c))) ch d
                    = (if bucketItems loc (ps @ qs) ch d = [] then None
                       else Some (bucketItems loc (ps @ qs) ch d)))
        \<and> (\<forall>q d item. q \<in> set (ps @ qs) \<and> derivedItem loc q = Some (d, item) \<longrightarrow>
              item \<in> set (itemsOf (bucket (ProgramData
                        (snd (buildEPGCache loc (tv\<lparr>Programmes := ps @ p # qs\<rparr>) c))) (Channel q) d))))
   \<and> (length (numeric_portion (Start p)) \<noteq> 14 \<or> length (numeric_portion (Stop p)) \<noteq> 14 \<longrightarrow>
        isl (parseEPGTime loc (Start p)) \<or> isl (parseEPGTime loc (Stop p)))"
proof -
  let ?tv = "tv\<lparr>Programmes := ps @ p # qs\<rparr>"
  have 1: "fst (buildEPGCache loc tv c) = None"
    by (rule fst_buildEPGCache)
  have 2: "addProgramme loc p pd = pd
        \<and> buildEPGCache loc ?tv c = buildEPGCache loc (tv\<lparr>Programmes := ps @ qs\<rparr>) c
        \<and> (\<forall>ch d. bucket (ProgramData (snd (buildEPGCache loc ?tv c))) ch d
                    = (if bucketItems loc (ps @ qs) ch d = [] then None
                       else Some (bucketItems loc (ps @ qs) ch d)))
        \<and> (\<forall>q d item. q \<in> set (ps @ qs) \<and> derivedItem loc q = Some (d, item) \<longrightarrow>
              item \<in> set (itemsOf (bucket (ProgramData (snd (buildEPGCache loc ?tv c))) (Channel q) d)))"
    if "isl (parseEPGTime loc (Start p)) \<or> isl (parseEPGTime loc (Stop p))"
  proof -
    have none: "derivedItem loc p = None"
      using that by (auto simp: derivedItem_def split: sum.splits)
    then have skip: "addProgramme loc p pd' = pd'" for pd'
      by (rule addProgramme_skip)
    have a: "buildEPGCache loc ?tv c = buildEPGCache loc (tv\<lparr>Programmes := ps @ qs\<rparr>) c"
      using skip by (simp add: buildEPGCache_def Let_def)
    have b: "bucket (ProgramData (snd (buildEPGCache loc ?tv c))) ch d
               = (if bucketItems loc (ps @ qs) ch d = [] then None
                  else Some (bucketItems loc (ps @ qs) ch d))" for ch d
      using bucket_build [of loc ?tv c ch d] by (simp add: bucketItems_skip [OF none])
    have m: "item \<in> set (itemsOf (bucket (ProgramData (snd (buildEPGCache loc ?tv c))) (Channel q) d))"
      if "q \<in> set (ps @ qs) \<and> derivedItem loc q = Some (d, item)" for q d item
    proof -
      from that have "item \<in> set (bucketItems loc (ps @ qs) (Channel q) d)"
        by (intro bucketItems_member) simp_all
      then show ?thesis by (auto simp: b itemsOf_def)
    qed
    show ?thesis using skip a b m by blast
  qed
  have 3: "isl (parseEPGTime loc (Start p)) \<or> isl (parseEPGTime loc (Stop p))"
    if "length (numeric_portion (Start p)) \<noteq> 14 \<or> length (numeric_portion (Stop p)) \<noteq> 14"
    using that by (auto simp: parseEPGTime_eq Let_def)
  show ?thesis using 1 2 3 by blast
qed

lemma eval_prog_bad:
  "length (numeric_portion (Start prog_bad)) = 13"
  "isl (parseEPGTime east8 (Start prog_bad))"
  "tv_example\<lparr>Programmes := [prog_news, prog_bad, prog_film, prog_night]\<rparr> = tv_example"
  "bucketItems east8 [prog_news, prog_film, prog_night] ''c1'' ''2024-01-01'' = [item_news, item_film]"
  "derivedItem east8 prog_film = Some (''2024-01-01'', item_film)"
  "Channel prog_film = ''c1''"
  by code_simp+

theorem buildEPGCache_skips_unparsable_witness:
  "length (numeric_portion (Start prog_bad)) \<noteq> 14
   \<and> isl (parseEPGTime east8 (Start prog_bad))
   \<and> fst (buildEPGCache east8 tv_example epgCache_init) = None
   \<and> addProgramme east8 prog_bad fmempty = fmempty
   \<and> buildEPGCache east8 tv_example epgCache_init
       = buildEPGCache east8 (tv_example\<lparr>Programmes := [prog_news, prog_film, prog_night]\<rparr>)
           epgCache_init
   \<and> bucket (ProgramData (snd (buildEPGCache east8 tv_example epgCache_init))) ''c1'' ''2024-01-01''
       = Some [item_news, item_film]
   \<and> prog_film \<in> set ([prog_news] @ [prog_film, prog_night])
   \<and> derivedItem east8 prog_film = Some (''2024-01-01'', item_film)
   \<and> item_film \<in> set (itemsOf (bucket (ProgramData (snd (buildEPGCache east8 tv_example epgCache_init)))
                                 ''c1'' ''2024-01-01''))"
proof -
  note t = buildEPGCache_skips_unparsable
             [of east8 tv_example epgCache_init prog_bad fmempty "[prog_news]" "[prog_film, prog_night]"]
  have h: "isl (parseEPGTime east8 (Start prog_bad)) \<or> isl (parseEPGTime east8 (Stop prog_bad))"
    by (simp add: eval_prog_bad)
  let ?tv = "tv_example\<lparr>Programmes := [prog_news] @ prog_bad # [prog_film, prog_night]\<rparr>"
  have e: "?tv = tv_example" by (simp add: eval_prog_bad)
  from t h have skip: "addProgramme east8 prog_bad fmempty = fmempty"
    and same: "buildEPGCache east8 ?tv epgCache_init
                 = buildEPGCache east8 (tv_example\<lparr>Programmes := [prog_news] @ [prog_film, prog_night]\<rparr>)
                     epgCache_init"
    and b: "\<And>ch d. bucket (ProgramData (snd (buildEPGCache east8 ?tv epgCache_init))) ch d
               = (if bucketItems east8 ([prog_news] @ [prog_film, prog_night]) ch d = [] then None
                  else Some (bucketItems east8 ([prog_news] @ [prog_film, prog_night]) ch d))"
    and m: "\<And>q d item. q \<in> set ([prog_news] @ [prog_film, prog_night])
                 \<and> derivedItem east8 q = Some (d, item) \<Longrightarrow>
               item \<in> set (itemsOf (bucket (ProgramData (snd (buildEPGCache east8 ?tv epgCache_init)))
                                      (Channel q) d))"
    by blast+
  have b1: "bucket (ProgramData (snd (buildEPGCache east8 tv_example epgCache_init))) ''c1'' ''2024-01-01''
              = Some [item_news, item_film]"
    using b [of "''c1''" "''2024-01-01''"] by (simp add: e eval_prog_bad)
  have m1: "item_film \<in> set (itemsOf (bucket (ProgramData (snd (buildEPGCache east8 tv_example epgCache_init)))
                                 ''c1'' ''2024-01-01''))"
    using m [of prog_film "''2024-01-01''" item_film] by (simp add: e eval_prog_bad)
  show ?thesis
    using skip same b1 m1 fst_buildEPGCache [of east8 tv_example epgCache_init]
    by (simp add: e eval_prog_bad)
qed

text \<open>
  Claim C6. After the build the name index maps a name to the identifier of the last
  channel of the document whose lookup name it is, the lookup name of a channel being
  the value of its first display name tagged \<open>zh\<close> that is not empty; a name that is
  the lookup name of no channel is not in the index. The programme index does not
  depend on the channels of the document: the item of every programme is in the bucket
  of the channel identifier that the programme names.
\<close>

theorem buildEPGCache_name_index:
  "fmlookup (ChannelMap (snd (buildEPGCache loc tv c))) name
     = map_option ID (find (\<lambda>ch. zhName ch = Some name) (rev (Channels tv)))
   \<and> (fmlookup (ChannelMap (snd (buildEPGCache loc tv c))) name \<noteq> None
        \<longleftrightarrow> (\<exists>ch \<in> set (Channels tv). zhName ch = Some name))
   \<and> ProgramData (snd (buildEPGCache loc tv c))
       = ProgramData (snd (buildEPGCache loc (tv\<lparr>Channels := chs\<rparr>) c))
   \<and> (p \<in> set (Programmes tv) \<and> derivedItem loc p = Some (d, item) \<longrightarrow>
        item \<in> set (itemsOf (bucket (ProgramData (snd (buildEPGCache loc tv c))) (Channel p) d)))"
proof -
  have 1: "fmlookup (ChannelMap (snd (buildEPGCache loc tv c))) name
     = map_option ID (find (\<lambda>ch. zhName ch = Some name) (rev (Channels tv)))"
    by (simp add: ChannelMap_build fold_scan_lookup split: option.split)
  have 2: "fmlookup (ChannelMap (snd (buildEPGCache loc tv c))) name \<noteq> None
        \<longleftrightarrow> (\<exists>ch \<in> set (Channels tv). zhName ch = Some name)"
    unfolding 1 by (auto simp: find_None_iff)
  have 3: "ProgramData (snd (buildEPGCache loc tv c))
       = ProgramData (snd (buildEPGCache loc (tv\<lparr>Channels := chs\<rparr>) c))"
    by (simp add: ProgramData_build)
  have 4: "item \<in> set (itemsOf (bucket (ProgramData (snd (buildEPGCache loc tv c))) (Channel p) d))"
    if "p \<in> set (Programmes tv) \<and> derivedItem loc p = Some (d, item)"
  proof -
    have "item \<in> set (bucketItems loc (Programmes tv) (Channel p) d)"
      using that by (force simp: bucketItems_def List.map_filter_def)
    then show ?thesis
      by (auto simp: ProgramData_build fold_addProgramme_bucket bucket_empty itemsOf_def)
  qed
  show ?thesis using 1 2 3 4 by blast
qed

lemma eval_tv_example_names:
  "find (\<lambda>ch. zhName ch = Some ''CCTV1'') (rev (Channels tv_example)) = Some ch4"
  "find (\<lambda>ch. zhName ch = Some ''CCTV2'') (rev (Channels tv_example)) = Some ch2"
  "find (\<lambda>ch. zhName ch = Some ''Three'') (rev (Channels tv_example)) = None"
  "ID ch4 = ''c4''" "ID ch2 = ''c2''" "zhName ch3 = None"
  "prog_night \<in> set (Programmes tv_example)"
  "derivedItem east8 prog_night = Some (''2024-01-01'', item_night)"
  "Channel prog_night = ''c3''"
  by code_simp+

theorem buildEPGCache_name_index_witness:
  "fmlookup (ChannelMap (snd (buildEPGCache east8 tv_example epgCache_init))) ''CCTV1'' = Some ''c4''
   \<and> (\<exists>ch \<in> set (Channels tv_example). zhName ch = Some ''CCTV1'')
   \<and> zhName ch3 = None
   \<and> prog_night \<in> set (Programmes tv_example)
   \<and> derivedItem east8 prog_night = Some (''2024-01-01'', item_night)
   \<and> item_night \<in> set (itemsOf (bucket (ProgramData (snd (buildEPGCache east8 tv_example epgCache_init)))
                                  ''c3'' ''2024-01-01''))"
  using buildEPGCache_name_index
          [of east8 tv_example epgCache_init "''CCTV1''" "Channels tv_example" prog_night
              "''2024-01-01''" item_night]
  by (auto simp add: eval_tv_example_names)

section \<open>The query handler: properties\<close>











section \<open>The snapshot: properties\<close>

subsection \<open>Valid UTF-8\<close>

lemma runeSize_bounds: "runeSize s = Some n \<Longrightarrow> 1 \<le> n \<and> n \<le> length s"
  by (auto simp: runeSize_def Let_def split: list.splits if_splits)

lemma take_drop_rune:
  assumes "runeSize (c # cs) = Some n"
  shows "take n (c # cs) @ drop (n - 1) cs = c # cs"
proof -
  from runeSize_bounds [OF assms] obtain k where n: "n = Suc k" by (cases n) auto
  show ?thesis by (simp add: n)
qed

lemma toValidUTF8_id: "validUTF8 s \<Longrightarrow> toValidUTF8 s = s"
proof (induction s rule: validUTF8.induct)
  case 1
  then show ?case by simp
next
  case (2 c cs)
  from "2.prems" obtain n where n: "runeSize (c # cs) = Some n"
    by (auto split: option.splits)
  with "2.prems" have "validUTF8 (drop (n - 1) cs)" by simp
  with "2.IH" [OF n] have "toValidUTF8 (drop (n - 1) cs) = drop (n - 1) cs" by simp
  then show ?case using n take_drop_rune [OF n] by simp
qed

lemma runeSize_prefix:
  assumes "runeSize s = Some n"
  shows "runeSize (take n s @ t) = Some n"
  using assms
  by (auto simp: runeSize_def Let_def split: list.splits if_splits)

lemma validUTF8_rune_append:
  assumes "runeSize s = Some n"
  shows "validUTF8 (take n s @ t) = validUTF8 t"
proof -
  from runeSize_bounds [OF assms] obtain k where n: "n = Suc k" by (cases n) auto
  from assms obtain c cs where s: "s = c # cs" by (cases s) (auto simp: runeSize_def)
  have "take n s @ t = c # (take k cs @ t)" by (simp add: s n)
  moreover have "runeSize (c # (take k cs @ t)) = Some n"
    using runeSize_prefix [OF assms, of t] by (simp add: s n)
  moreover have "length (take k cs) = k"
    using runeSize_bounds [OF assms] by (simp add: s n)
  ultimately show ?thesis by (simp add: n)
qed

lemma runeSize_replacementChar: "runeSize (replacementChar @ t) = Some 3"
  by (simp add: runeSize_def replacementChar_def second3_def contByte_def)

lemma validUTF8_replacement_append: "validUTF8 (replacementChar @ t) = validUTF8 t"
proof -
  have "validUTF8 (take 3 (replacementChar @ t) @ t) = validUTF8 t"
    by (rule validUTF8_rune_append) (rule runeSize_replacementChar)
  then show ?thesis by (simp add: replacementChar_def)
qed

lemma validUTF8_toValidUTF8: "validUTF8 (toValidUTF8 s)"
proof (induction s rule: toValidUTF8.induct)
  case 1
  then show ?case by simp
next
  case (2 c cs)
  show ?case
  proof (cases "runeSize (c # cs)")
    case None
    then show ?thesis using "2.IH"(1) [OF None]
      by (simp add: validUTF8_replacement_append del: validUTF8.simps)
  next
    case (Some n)
    then show ?thesis using "2.IH"(2) [OF Some]
      by (simp add: validUTF8_rune_append del: validUTF8.simps)
  qed
qed

lemma validUTF8_ascii: "list_all (\<lambda>c. (of_char c :: nat) < 128) s \<Longrightarrow> validUTF8 s"
  by (induction s) (simp_all add: runeSize_def)

lemma validUTF8_empty: "validUTF8 ''''"
  by simp

subsection \<open>Decoding what was encoded\<close>

lemma equalFold_names:
  "equalFold ''start'' ''start''" "\<not> equalFold ''end'' ''start''" "equalFold ''end'' ''end''"
  "\<not> equalFold ''title'' ''start''" "\<not> equalFold ''title'' ''end''" "equalFold ''title'' ''title''"
  "equalFold ''ChannelMap'' ''ChannelMap''" "\<not> equalFold ''ProgramData'' ''ChannelMap''"
  "equalFold ''ProgramData'' ''ProgramData''"
  by code_simp+

lemma firstError_None [simp]: "firstError None e = e"
  by (simp add: firstError_def)

lemma decodeString_valid: "validUTF8 s \<Longrightarrow> decodeString (JString (toValidUTF8 s)) old = (s, None)"
  by (simp add: decodeString_def toValidUTF8_id)

lemma decodeItem_marshalItem:
  assumes "utf8_item it"
  shows "decodeItem (marshalItem it) = (it, None)"
proof -
  have "decodeItem (marshalItem it)
          = (\<lparr>Start_item = Start_item it, End_item = End_item it, Title_item = Title_item it\<rparr>, None)"
    using assms
    by (simp add: decodeItem_def marshalItem_def decodeItemField_def equalFold_names
          decodeString_valid utf8_item_def zeroItem_def)
  then show ?thesis by simp
qed

lemma decodeItems_marshal:
  assumes "list_all utf8_item items"
  shows "decodeItems (JArray (map marshalItem items)) = (items, None)"
proof -
  have 1: "map (\<lambda>x. fst (decodeItem x)) (map marshalItem items) = items"
    using assms by (induction items) (simp_all add: decodeItem_marshalItem)
  have 2: "fold (\<lambda>x e. firstError e (snd (decodeItem x))) (map marshalItem items) None = None"
    using assms by (induction items) (simp_all add: decodeItem_marshalItem)
  show ?thesis by (simp only: decodeItems_def json.case 1 2)
qed

lemma decodeMembers_encoded:
  assumes "\<forall>(k, v) \<in> set kvs. validUTF8 k \<and> dec (enc v) = (v, None)"
  shows "decodeMembers dec (map (\<lambda>(k, v). (toValidUTF8 k, enc v)) kvs) m
           = (fold (\<lambda>(k, v). fmupd k v) kvs m, None)"
  using assms unfolding decodeMembers_def
  by (induction kvs arbitrary: m) (auto simp: toValidUTF8_id)

lemma fold_fmupd_lookup:
  assumes "\<forall>(k', v) \<in> set kvs. fmlookup x k' = Some v"
  shows "fmlookup (fold (\<lambda>(k, v). fmupd k v) kvs m) k
           = (if k \<in> fst ` set kvs then fmlookup x k else fmlookup m k)"
  using assms by (induction kvs arbitrary: m) (auto split: if_splits)

lemma sorted_list_of_fmap_set:
  "(k, v) \<in> set (sorted_list_of_fmap x) \<longleftrightarrow> fmlookup x k = Some v"
  by (auto simp: sorted_list_of_fmap_def fmlookup_dom_iff)

lemma fold_fmupd_sorted: "fold (\<lambda>(k, v). fmupd k v) (sorted_list_of_fmap x) m = m ++\<^sub>f x"
proof (rule fmap_ext)
  fix k
  have "fmlookup (fold (\<lambda>(k, v). fmupd k v) (sorted_list_of_fmap x) m) k
          = (if k \<in> fst ` set (sorted_list_of_fmap x) then fmlookup x k else fmlookup m k)"
    by (rule fold_fmupd_lookup) (auto simp: sorted_list_of_fmap_set)
  moreover have "k \<in> fst ` set (sorted_list_of_fmap x) \<longleftrightarrow> k |\<in>| fmdom x"
  proof -
    have "k \<in> fst ` set (sorted_list_of_fmap x) \<longleftrightarrow> (\<exists>v. (k, v) \<in> set (sorted_list_of_fmap x))"
      by force
    also have "\<dots> \<longleftrightarrow> (\<exists>v. fmlookup x k = Some v)"
      by (simp add: sorted_list_of_fmap_set)
    also have "\<dots> \<longleftrightarrow> k |\<in>| fmdom x"
      by (simp add: fmlookup_dom_iff)
    finally show ?thesis .
  qed
  ultimately show "fmlookup (fold (\<lambda>(k, v). fmupd k v) (sorted_list_of_fmap x) m) k
                     = fmlookup (m ++\<^sub>f x) k"
    by simp
qed

lemma utf8_map_entries:
  "utf8_map P m \<Longrightarrow> (k, v) \<in> set (sorted_list_of_fmap m) \<Longrightarrow> validUTF8 k \<and> P v"
  unfolding utf8_map_def list_all_iff by blast

lemma decodeMembers_marshal:
  assumes "utf8_map P x" and "\<And>v. P v \<Longrightarrow> dec (enc v) = (v, None)"
  shows "decodeMembers dec (map (\<lambda>(k, v). (toValidUTF8 k, enc v)) (sorted_list_of_fmap x)) m
           = (m ++\<^sub>f x, None)"
proof -
  have "\<forall>(k, v) \<in> set (sorted_list_of_fmap x). validUTF8 k \<and> dec (enc v) = (v, None)"
    using utf8_map_entries [OF assms(1)] assms(2) by blast
  from decodeMembers_encoded [OF this] show ?thesis by (simp add: fold_fmupd_sorted)
qed

lemma decodeDates_marshal:
  assumes "utf8_map (list_all utf8_item) dm"
  shows "decodeDates (marshalDates dm) = (dm, None)"
proof -
  have "decodeMembers decodeItems
          (map (\<lambda>(k, v). (toValidUTF8 k, JArray (map marshalItem v))) (sorted_list_of_fmap dm)) fmempty
        = (fmempty ++\<^sub>f dm, None)"
    using assms by (rule decodeMembers_marshal) (rule decodeItems_marshal)
  then show ?thesis by (simp add: decodeDates_def marshalDates_def)
qed

lemma decodeProgramData_marshal:
  assumes "utf8_map (utf8_map (list_all utf8_item)) pd"
  shows "decodeProgramData (marshalProgramData pd) old = (old ++\<^sub>f pd, None)"
proof -
  have "decodeMembers decodeDates
          (map (\<lambda>(k, v). (toValidUTF8 k, marshalDates v)) (sorted_list_of_fmap pd)) old
        = (old ++\<^sub>f pd, None)"
    using assms by (rule decodeMembers_marshal) (rule decodeDates_marshal)
  then show ?thesis by (simp add: decodeProgramData_def marshalProgramData_def)
qed

lemma decodeStringMap_marshal:
  assumes "utf8_map validUTF8 cm"
  shows "decodeStringMap (marshalStringMap cm) old = (old ++\<^sub>f cm, None)"
proof -
  have "decodeMembers (\<lambda>v. decodeString v '''')
          (map (\<lambda>(k, v). (toValidUTF8 k, JString (toValidUTF8 v))) (sorted_list_of_fmap cm)) old
        = (old ++\<^sub>f cm, None)"
    using assms by (rule decodeMembers_marshal) (rule decodeString_valid)
  then show ?thesis by (simp add: decodeStringMap_def marshalStringMap_def)
qed

lemma Unmarshal_Marshal:
  assumes "utf8_cache x"
  shows "Unmarshal (Marshal x) c
           = (None, c\<lparr>ChannelMap := ChannelMap c ++\<^sub>f ChannelMap x,
                      ProgramData := ProgramData c ++\<^sub>f ProgramData x\<rparr>)"
  using assms
  by (simp add: Unmarshal_def Marshal_def decodeCacheField_def equalFold_names utf8_cache_def
        decodeStringMap_marshal decodeProgramData_marshal)

lemma fmadd_idem: "m ++\<^sub>f m = m"
  by (rule fmap_ext) simp

lemma Unmarshal_Marshal_init:
  "utf8_cache x \<Longrightarrow> Unmarshal (Marshal x) epgCache_init = (None, x)"
  by (simp add: Unmarshal_Marshal epgCache_init_def)

lemma Unmarshal_Marshal_same:
  "utf8_cache x \<Longrightarrow> Unmarshal (Marshal x) x = (None, x)"
  by (simp add: Unmarshal_Marshal fmadd_idem)

subsection \<open>The strings of a reachable cache\<close>

lemma utf8_map_fmpred: "utf8_map P m = fmpred (\<lambda>k v. validUTF8 k \<and> P v) m"
  by (simp add: utf8_map_def curry_def)

lemma utf8_map_empty: "utf8_map P fmempty"
  by (simp add: utf8_map_fmpred)

lemma utf8_map_upd: "utf8_map P m \<Longrightarrow> validUTF8 k \<Longrightarrow> P v \<Longrightarrow> utf8_map P (fmupd k v m)"
  by (simp add: utf8_map_fmpred fmpred_upd)

lemma utf8_map_lookup: "utf8_map P m \<Longrightarrow> fmlookup m k = Some v \<Longrightarrow> P v"
  by (auto simp: utf8_map_fmpred dest: fmpredD)

lemma utf8_cache_init: "utf8_cache epgCache_init"
  by (simp add: utf8_cache_def epgCache_init_def utf8_map_empty)

lemma ascii_digits: "c \<in> set (digits n) \<Longrightarrow> (of_char c :: nat) < 128"
  using digits_isDigit [of c n] by (simp add: isDigit_def)

lemma ascii_appendInt: "list_all (\<lambda>c. (of_char c :: nat) < 128) (appendInt x w)"
  by (auto simp: appendInt_def Let_def list_all_iff dest: ascii_digits)

lemma validUTF8_Format_date: "validUTF8 (Format_date loc t)"
  by (rule validUTF8_ascii) (simp add: Format_date_def ascii_appendInt split: prod.split)

lemma validUTF8_Format_clock: "validUTF8 (Format_clock loc t)"
  by (rule validUTF8_ascii) (simp add: Format_clock_def Let_def ascii_appendInt)

lemma utf8_scanDisplayNames:
  assumes "utf8_map validUTF8 m" "validUTF8 i" "list_all (\<lambda>dn. validUTF8 (Value dn)) dns"
  shows "utf8_map validUTF8 (scanDisplayNames i dns m)"
  using assms by (induction dns) (simp_all add: utf8_map_upd)

lemma utf8_fold_scan:
  assumes "utf8_map validUTF8 m"
    and "list_all (\<lambda>ch. validUTF8 (ID ch) \<and> list_all (\<lambda>dn. validUTF8 (Value dn)) (DisplayName ch)) chs"
  shows "utf8_map validUTF8 (fold (\<lambda>ch m. scanDisplayNames (ID ch) (DisplayName ch) m) chs m)"
  using assms by (induction chs arbitrary: m) (simp_all add: utf8_scanDisplayNames)

lemma utf8_addProgramme:
  assumes pd: "utf8_map (utf8_map (list_all utf8_item)) pd"
    and p: "validUTF8 (Channel p)" "validUTF8 (Title p)"
  shows "utf8_map (utf8_map (list_all utf8_item)) (addProgramme loc p pd)"
proof (cases "derivedItem loc p")
  case None
  then show ?thesis using pd by (simp add: addProgramme_skip)
next
  case (Some a)
  then obtain st sp where st: "parseEPGTime loc (Start p) = Inr st"
    and sp: "parseEPGTime loc (Stop p) = Inr sp"
    by (auto simp: derivedItem_def split: sum.splits)
  define item where "item = \<lparr>Start_item = Format_clock loc st, End_item = Format_clock loc sp,
                             Title_item = Title p\<rparr>"
  define pd1 where "pd1 = (case fmlookup pd (Channel p) of
                             None \<Rightarrow> fmupd (Channel p) fmempty pd | Some _ \<Rightarrow> pd)"
  define dates1 where "dates1 = (case fmlookup pd1 (Channel p) of None \<Rightarrow> fmempty | Some dm \<Rightarrow> dm)"
  define dates2 where "dates2 = (case fmlookup dates1 (Format_date loc st) of
                                None \<Rightarrow> fmupd (Format_date loc st) [] dates1 | Some _ \<Rightarrow> dates1)"
  define items where "items = (case fmlookup dates2 (Format_date loc st) of None \<Rightarrow> [] | Some xs \<Rightarrow> xs)"
  have e: "addProgramme loc p pd
             = fmupd (Channel p) (fmupd (Format_date loc st) (items @ [item]) dates2) pd1"
    by (simp only: addProgramme_def st sp sum.case Let_def item_def pd1_def dates1_def dates2_def
          items_def)
  have i: "utf8_item item"
    by (simp add: utf8_item_def item_def validUTF8_Format_clock p)
  have 1: "utf8_map (utf8_map (list_all utf8_item)) pd1"
    using pd p by (auto simp: pd1_def utf8_map_upd utf8_map_empty split: option.split)
  have 2: "utf8_map (list_all utf8_item) dates1"
    using 1 by (auto simp: dates1_def utf8_map_empty split: option.split dest: utf8_map_lookup)
  have 3: "utf8_map (list_all utf8_item) dates2"
    using 2 by (auto simp: dates2_def utf8_map_upd validUTF8_Format_date split: option.split)
  have 4: "list_all utf8_item items"
    using 3 by (auto simp: items_def split: option.split dest: utf8_map_lookup)
  have 5: "utf8_map (list_all utf8_item) (fmupd (Format_date loc st) (items @ [item]) dates2)"
    using 3 4 i by (intro utf8_map_upd) (simp_all add: validUTF8_Format_date)
  show ?thesis unfolding e by (rule utf8_map_upd [OF 1 p(1) 5])
qed

lemma utf8_fold_addProgramme:
  assumes "utf8_map (utf8_map (list_all utf8_item)) pd"
    and "list_all (\<lambda>p. validUTF8 (Channel p) \<and> validUTF8 (Title p)) ps"
  shows "utf8_map (utf8_map (list_all utf8_item)) (fold (addProgramme loc) ps pd)"
  using assms by (induction ps arbitrary: pd) (simp_all add: utf8_addProgramme)

lemma utf8_cache_build: "utf8_TV tv \<Longrightarrow> utf8_cache (snd (buildEPGCache loc tv c))"
  by (simp add: utf8_cache_def utf8_TV_def ChannelMap_build ProgramData_build
        utf8_fold_scan utf8_fold_addProgramme utf8_map_empty)

lemma valid_decodeString: "validUTF8 old \<Longrightarrow> validUTF8 (fst (decodeString j old))"
  by (cases j) (simp_all add: decodeString_def validUTF8_toValidUTF8)

lemma utf8_decodeItemField: "utf8_item (fst acc) \<Longrightarrow> utf8_item (fst (decodeItemField kv acc))"
proof -
  assume a: "utf8_item (fst acc)"
  obtain k v where kv: "kv = (k, v)" by (cases kv)
  obtain it e where acc: "acc = (it, e)" by (cases acc)
  have o: "validUTF8 (Start_item it)" "validUTF8 (End_item it)" "validUTF8 (Title_item it)"
    using a by (simp_all add: acc utf8_item_def)
  show ?thesis
    using o valid_decodeString [OF o(1), of v] valid_decodeString [OF o(2), of v]
      valid_decodeString [OF o(3), of v]
    by (auto simp: kv acc decodeItemField_def utf8_item_def split: prod.split)
qed

lemma utf8_fold_decodeItemField:
  "utf8_item (fst acc) \<Longrightarrow> utf8_item (fst (fold decodeItemField kvs acc))"
  by (induction kvs arbitrary: acc) (simp_all add: utf8_decodeItemField)

lemma utf8_zeroItem: "utf8_item zeroItem"
  by (simp add: utf8_item_def zeroItem_def)

lemma utf8_decodeItem: "utf8_item (fst (decodeItem j))"
  by (cases j) (simp_all add: decodeItem_def utf8_zeroItem utf8_fold_decodeItemField)

lemma utf8_decodeItems: "list_all utf8_item (fst (decodeItems j))"
  by (cases j) (simp_all add: decodeItems_def list_all_iff utf8_decodeItem)

lemma utf8_decodeMembers:
  assumes "utf8_map P m" and "\<And>v. P (fst (dec v))"
  shows "utf8_map P (fst (decodeMembers dec kvs m))"
proof -
  have "utf8_map P (fst (fold (\<lambda>(k, v) (m', e). case dec v of
            (x, e') \<Rightarrow> (fmupd (toValidUTF8 k) x m', firstError e e')) kvs acc))"
    if "utf8_map P (fst acc)" for acc
    using that
  proof (induction kvs arbitrary: acc)
    case Nil
    then show ?case by simp
  next
    case (Cons kv kvs)
    obtain k v where kv: "kv = (k, v)" by (cases kv)
    obtain m' e where acc: "acc = (m', e)" by (cases acc)
    obtain x e' where d: "dec v = (x, e')" by (cases "dec v")
    have "P x" using assms(2) [of v] by (simp add: d)
    then have "utf8_map P (fmupd (toValidUTF8 k) x m')"
      using Cons.prems by (simp add: acc utf8_map_upd validUTF8_toValidUTF8)
    then show ?case by (simp add: kv acc d Cons.IH)
  qed
  then show ?thesis using assms(1) by (simp add: decodeMembers_def)
qed

lemma utf8_decodeDates: "utf8_map (list_all utf8_item) (fst (decodeDates j))"
  by (cases j) (simp_all add: decodeDates_def utf8_map_empty utf8_decodeMembers utf8_decodeItems)

lemma utf8_decodeProgramData:
  "utf8_map (utf8_map (list_all utf8_item)) old \<Longrightarrow>
   utf8_map (utf8_map (list_all utf8_item)) (fst (decodeProgramData j old))"
  by (cases j) (simp_all add: decodeProgramData_def utf8_map_empty utf8_decodeMembers utf8_decodeDates)

lemma utf8_decodeStringMap:
  "utf8_map validUTF8 old \<Longrightarrow> utf8_map validUTF8 (fst (decodeStringMap j old))"
  by (cases j)
     (simp_all add: decodeStringMap_def utf8_map_empty utf8_decodeMembers valid_decodeString)

lemma utf8_decodeCacheField: "utf8_cache (fst acc) \<Longrightarrow> utf8_cache (fst (decodeCacheField kv acc))"
proof -
  assume a: "utf8_cache (fst acc)"
  obtain k v where kv: "kv = (k, v)" by (cases kv)
  obtain c e where acc: "acc = (c, e)" by (cases acc)
  have o: "utf8_map validUTF8 (ChannelMap c)" "utf8_map (utf8_map (list_all utf8_item)) (ProgramData c)"
    using a by (simp_all add: acc utf8_cache_def)
  show ?thesis
    using o utf8_decodeStringMap [OF o(1), of v] utf8_decodeProgramData [OF o(2), of v]
    by (auto simp: kv acc decodeCacheField_def utf8_cache_def split: prod.split)
qed

lemma utf8_fold_decodeCacheField:
  "utf8_cache (fst acc) \<Longrightarrow> utf8_cache (fst (fold decodeCacheField kvs acc))"
  by (induction kvs arbitrary: acc) (simp_all add: utf8_decodeCacheField)

lemma utf8_cache_Unmarshal: "utf8_cache c \<Longrightarrow> utf8_cache (snd (Unmarshal j c))"
proof (cases j)
  case (JObject kvs)
  assume "utf8_cache c"
  then have "utf8_cache (fst (fold decodeCacheField kvs (c, None)))"
    by (intro utf8_fold_decodeCacheField) simp
  then show ?thesis by (auto simp: JObject Unmarshal_def split: prod.split)
qed (simp_all add: Unmarshal_def)

lemma reachable_utf8: "reachable c \<Longrightarrow> utf8_cache c"
  by (induction rule: reachable.induct)
     (simp_all add: utf8_cache_init utf8_cache_build utf8_cache_Unmarshal)

subsection \<open>The round trip\<close>

text \<open>
  Claim C3. For a reachable cache \<open>x\<close> and a file system that does not fail,
  \<open>saveCache\<close> writes the snapshot of \<open>x\<close> and leaves \<open>x\<close> in place; \<open>loadCache\<close> on that
  snapshot then gives the cache \<open>x\<close> again, both in a program that has just started,
  whose cache is empty, and in the program that saved it.
\<close>

theorem saveCache_loadCache_roundtrip:
  assumes "reachable x" and "writeFile_error fs = None" and "readFile_error fs = None"
  shows "saveCache fs \<lparr>epgCache = x, cacheFile = f\<rparr>
           = (None, \<lparr>epgCache = x, cacheFile = Some (JSONDoc (Marshal x))\<rparr>)
         \<and> loadCache fs \<lparr>epgCache = epgCache_init, cacheFile = Some (JSONDoc (Marshal x))\<rparr>
           = (None, \<lparr>epgCache = x, cacheFile = Some (JSONDoc (Marshal x))\<rparr>)
         \<and> loadCache fs \<lparr>epgCache = x, cacheFile = Some (JSONDoc (Marshal x))\<rparr>
           = (None, \<lparr>epgCache = x, cacheFile = Some (JSONDoc (Marshal x))\<rparr>)"
proof -
  have u: "utf8_cache x" using assms(1) by (rule reachable_utf8)
  show ?thesis
    using assms(2,3)
    by (simp add: saveCache_def loadCache_def Unmarshal_Marshal_init [OF u]
          Unmarshal_Marshal_same [OF u])
qed

lemma eval_fs_ok:
  "utf8_TV tv_example" "writeFile_error fs_ok = None" "readFile_error fs_ok = None"
  by code_simp+

theorem saveCache_loadCache_roundtrip_witness:
  "reachable cache_example \<and> writeFile_error fs_ok = None \<and> readFile_error fs_ok = None
   \<and> saveCache fs_ok \<lparr>epgCache = cache_example, cacheFile = None\<rparr>
       = (None, \<lparr>epgCache = cache_example, cacheFile = Some (JSONDoc (Marshal cache_example))\<rparr>)
   \<and> loadCache fs_ok \<lparr>epgCache = epgCache_init, cacheFile = Some (JSONDoc (Marshal cache_example))\<rparr>
       = (None, \<lparr>epgCache = cache_example, cacheFile = Some (JSONDoc (Marshal cache_example))\<rparr>)"
proof -
  have r: "reachable cache_example"
    unfolding cache_example_def by (rule reachable_build) (rule eval_fs_ok)
  show ?thesis
    using saveCache_loadCache_roundtrip [OF r eval_fs_ok(2) eval_fs_ok(3), of None] r
    by (simp add: eval_fs_ok)
qed

section \<open>The ingestion pipeline: properties\<close>

lemma eval_env_disk_full:
  "downloadFile env_disk_full = Inr ''epg_1.gz''"
  "extractTarGz env_disk_full ''epg_1.gz'' = Inr ''epg_1.xml''"
  "parseEPGXML env_disk_full ''epg_1.xml'' = Inr tv_spec"
  "writeFile_error (fileSystem env_disk_full) = Some ''no space left on device''"
  "failed_write_leaves (fileSystem env_disk_full) = None"
  "xml_Decode env_disk_full = Inr tv_spec"
  by code_simp+

lemma eval_env_no_network:
  "downloadFile env_no_network = Inl ''dial tcp: i/o timeout''"
  by code_simp

lemma eval_lookups:
  "fmlookup (ChannelMap cache_example) ''CCTV2'' = Some ''c2''"
  "fmlookup (ChannelMap cache_spec) ''CCTV2'' = None"
  by code_simp+

lemma eval_world_old: "epgCache world_old = cache_example"
  by (simp add: world_old_def)

lemma run_disk_full:
  "downloadAndParseEPG env_disk_full east8 world_old
     = (Some (SaveCacheFailed ''no space left on device''),
        \<lparr>epgCache = cache_spec, cacheFile = None\<rparr>)"
  by (simp add: downloadAndParseEPG_def eval_env_disk_full saveCache_def world_old_def
        cache_spec_def buildEPGCache_def Let_def epgCache_init_def)

lemma downloadAndParseEPG_cases:
  "downloadAndParseEPG env loc w =
     (case downloadFile env of
        Inl e \<Rightarrow> (Some (DownloadFailed e), w)
      | Inr tmpFile \<Rightarrow>
     (case extractTarGz env tmpFile of
        Inl e \<Rightarrow> (Some (ExtractFailed e), w)
      | Inr xmlFilePath \<Rightarrow>
     (case parseEPGXML env xmlFilePath of
        Inl e \<Rightarrow> (Some (ParseXMLFailed e), w)
      | Inr tv \<Rightarrow>
     (case writeFile_error (fileSystem env) of
        Some e \<Rightarrow>
          (Some (SaveCacheFailed e),
           \<lparr>epgCache = snd (buildEPGCache loc tv (epgCache w)),
            cacheFile = failed_write_leaves (fileSystem env)\<rparr>)
      | None \<Rightarrow>
          (None,
           \<lparr>epgCache = snd (buildEPGCache loc tv (epgCache w)),
            cacheFile = Some (JSONDoc (Marshal (snd (buildEPGCache loc tv (epgCache w)))))\<rparr>)))))"
proof -
  have b: "buildEPGCache loc tv c = (None, snd (buildEPGCache loc tv c))" for tv c
    by (simp add: buildEPGCache_def Let_def)
  show ?thesis
    unfolding downloadAndParseEPG_def
    by (subst b) (simp add: saveCache_def Let_def split: sum.split option.split)
qed

text \<open>
  Claim C2 as written fails. The program holds the cache built from the first
  document; in the next run the feed is fetched, decoded and built, and the disk is
  full. The run ends with the error of the Persist stage, and the cache installed is
  the one built from the new feed, in which the name \<open>CCTV2\<close> is no longer known.
\<close>

theorem downloadAndParseEPG_persist_failure_counterexample:
  "fst (downloadAndParseEPG env_disk_full east8 world_old)
     = Some (SaveCacheFailed ''no space left on device'')
   \<and> epgCache (snd (downloadAndParseEPG env_disk_full east8 world_old)) \<noteq> epgCache world_old
   \<and> fmlookup (ChannelMap (epgCache world_old)) ''CCTV2'' = Some ''c2''
   \<and> fmlookup (ChannelMap (epgCache (snd (downloadAndParseEPG env_disk_full east8 world_old)))) ''CCTV2''
       = None"
proof -
  have "cache_spec \<noteq> cache_example"
  proof
    assume "cache_spec = cache_example"
    then have "fmlookup (ChannelMap cache_spec) ''CCTV2'' = fmlookup (ChannelMap cache_example) ''CCTV2''"
      by simp
    then show False by (simp add: eval_lookups)
  qed
  then show ?thesis by (simp add: run_disk_full eval_world_old eval_lookups)
qed

lemma eval_env_bad_archive:
  "downloadFile env_bad_archive = Inr ''epg_1.gz''"
  "extractTarGz env_bad_archive ''epg_1.gz'' = Inl ''gzip: invalid header''"
  by code_simp+

lemma eval_env_bad_xml:
  "downloadFile env_bad_xml = Inr ''epg_1.gz''"
  "extractTarGz env_bad_xml ''epg_1.gz'' = Inr ''epg_1.xml''"
  "parseEPGXML env_bad_xml ''epg_1.xml'' = Inl ''XML syntax error on line 1''"
  by code_simp+

lemma eval_env_ok:
  "downloadFile env_ok = Inr ''epg_1.gz''"
  "extractTarGz env_ok ''epg_1.gz'' = Inr ''epg_1.xml''"
  "parseEPGXML env_ok ''epg_1.xml'' = Inr tv_spec"
  "writeFile_error (fileSystem env_ok) = None"
  by code_simp+

text \<open>
  Claim C2, amended. When the Fetch, the Decompress or the Parse stage of a run ends
  with an error, the run ends with that error, wrapped, and leaves the cache and its
  snapshot exactly as they were. The Build stage never ends with an error, and no run
  ends with the error of the Build stage; it installs the new index in place, before
  the Persist stage. When the Persist stage ends with an error, the run ends with that
  error, wrapped, and the index installed is the one built from the document of this
  run, not the previous one. When no stage ends with an error the run ends with none,
  that index is installed and its snapshot is in the file.
\<close>

theorem downloadAndParseEPG_failure:
  "(downloadFile env = Inl e \<longrightarrow>
      downloadAndParseEPG env loc w = (Some (DownloadFailed e), w))
   \<and> (downloadFile env = Inr tmpFile \<and> extractTarGz env tmpFile = Inl e \<longrightarrow>
      downloadAndParseEPG env loc w = (Some (ExtractFailed e), w))
   \<and> (downloadFile env = Inr tmpFile \<and> extractTarGz env tmpFile = Inr xmlFilePath
       \<and> parseEPGXML env xmlFilePath = Inl e \<longrightarrow>
      downloadAndParseEPG env loc w = (Some (ParseXMLFailed e), w))
   \<and> fst (buildEPGCache loc tv (epgCache w)) = None
   \<and> (\<forall>e'. fst (downloadAndParseEPG env loc w) \<noteq> Some (BuildCacheFailed e'))
   \<and> (downloadFile env = Inr tmpFile \<and> extractTarGz env tmpFile = Inr xmlFilePath
       \<and> parseEPGXML env xmlFilePath = Inr tv \<and> writeFile_error (fileSystem env) = Some e \<longrightarrow>
      downloadAndParseEPG env loc w
        = (Some (SaveCacheFailed e),
           \<lparr>epgCache = snd (buildEPGCache loc tv (epgCache w)),
            cacheFile = failed_write_leaves (fileSystem env)\<rparr>))
   \<and> (downloadFile env = Inr tmpFile \<and> extractTarGz env tmpFile = Inr xmlFilePath
       \<and> parseEPGXML env xmlFilePath = Inr tv \<and> writeFile_error (fileSystem env) = None \<longrightarrow>
      downloadAndParseEPG env loc w
        = (None,
           \<lparr>epgCache = snd (buildEPGCache loc tv (epgCache w)),
            cacheFile = Some (JSONDoc (Marshal (snd (buildEPGCache loc tv (epgCache w)))))\<rparr>))"
proof -
  have b: "fst (downloadAndParseEPG env loc w) \<noteq> Some (BuildCacheFailed e')" for e'
    by (simp add: downloadAndParseEPG_cases split: sum.split option.split)
  show ?thesis
    using b by (simp add: downloadAndParseEPG_cases fst_buildEPGCache)
qed

theorem downloadAndParseEPG_failure_witness:
  "downloadFile env_no_network = Inl ''dial tcp: i/o timeout''
   \<and> downloadAndParseEPG env_no_network east8 world_old
       = (Some (DownloadFailed ''dial tcp: i/o timeout''), world_old)
   \<and> downloadFile env_bad_archive = Inr ''epg_1.gz''
   \<and> extractTarGz env_bad_archive ''epg_1.gz'' = Inl ''gzip: invalid header''
   \<and> downloadAndParseEPG env_bad_archive east8 world_old
       = (Some (ExtractFailed ''gzip: invalid header''), world_old)
   \<and> downloadFile env_bad_xml = Inr ''epg_1.gz''
   \<and> extractTarGz env_bad_xml ''epg_1.gz'' = Inr ''epg_1.xml''
   \<and> parseEPGXML env_bad_xml ''epg_1.xml'' = Inl ''XML syntax error on line 1''
   \<and> downloadAndParseEPG env_bad_xml east8 world_old
       = (Some (ParseXMLFailed ''XML syntax error on line 1''), world_old)
   \<and> downloadFile env_disk_full = Inr ''epg_1.gz''
   \<and> extractTarGz env_disk_full ''epg_1.gz'' = Inr ''epg_1.xml''
   \<and> parseEPGXML env_disk_full ''epg_1.xml'' = Inr tv_spec
   \<and> writeFile_error (fileSystem env_disk_full) = Some ''no space left on device''
   \<and> downloadAndParseEPG env_disk_full east8 world_old
       = (Some (SaveCacheFailed ''no space left on device''),
          \<lparr>epgCache = snd (buildEPGCache east8 tv_spec (epgCache world_old)), cacheFile = None\<rparr>)
   \<and> downloadFile env_ok = Inr ''epg_1.gz''
   \<and> extractTarGz env_ok ''epg_1.gz'' = Inr ''epg_1.xml''
   \<and> parseEPGXML env_ok ''epg_1.xml'' = Inr tv_spec
   \<and> writeFile_error (fileSystem env_ok) = None
   \<and> downloadAndParseEPG env_ok east8 world_old
       = (None,
          \<lparr>epgCache = snd (buildEPGCache east8 tv_spec (epgCache world_old)),
           cacheFile = Some (JSONDoc (Marshal (snd (buildEPGCache east8 tv_spec (epgCache world_old)))))\<rparr>)"
proof -
  note t = downloadAndParseEPG_failure [where loc = east8 and w = world_old]
  have 1: "downloadAndParseEPG env_no_network east8 world_old
             = (Some (DownloadFailed ''dial tcp: i/o timeout''), world_old)"
    using t [where env = env_no_network and e = "''dial tcp: i/o timeout''"]
    by (simp add: eval_env_no_network)
  have 2: "downloadAndParseEPG env_bad_archive east8 world_old
             = (Some (ExtractFailed ''gzip: invalid header''), world_old)"
    using t [where env = env_bad_archive and e = "''gzip: invalid header''"
               and tmpFile = "''epg_1.gz''"]
    by (simp add: eval_env_bad_archive)
  have 3: "downloadAndParseEPG env_bad_xml east8 world_old
             = (Some (ParseXMLFailed ''XML syntax error on line 1''), world_old)"
    using t [where env = env_bad_xml and e = "''XML syntax error on line 1''"
               and tmpFile = "''epg_1.gz''" and xmlFilePath = "''epg_1.xml''"]
    by (simp add: eval_env_bad_xml)
  have 4: "downloadAndParseEPG env_disk_full east8 world_old
             = (Some (SaveCacheFailed ''no space left on device''),
                \<lparr>epgCache = snd (buildEPGCache east8 tv_spec (epgCache world_old)), cacheFile = None\<rparr>)"
    using t [where env = env_disk_full and e = "''no space left on device''"
               and tmpFile = "''epg_1.gz''" and xmlFilePath = "''epg_1.xml''" and tv = tv_spec]
    by (simp add: eval_env_disk_full)
  have 5: "downloadAndParseEPG env_ok east8 world_old
             = (None,
                \<lparr>epgCache = snd (buildEPGCache east8 tv_spec (epgCache world_old)),
                 cacheFile = Some (JSONDoc (Marshal (snd (buildEPGCache east8 tv_spec (epgCache world_old)))))\<rparr>)"
    using t [where env = env_ok and tmpFile = "''epg_1.gz''" and xmlFilePath = "''epg_1.xml''"
               and tv = tv_spec]
    by (simp add: eval_env_ok)
  show ?thesis
    by (simp add: 1 2 3 4 5 eval_env_no_network eval_env_bad_archive eval_env_bad_xml
          eval_env_disk_full eval_env_ok)
qed

end
